theory Spec2Isabelle
  imports Complex_Main "HOL-Library.Signed_Division" "HOL-Library.AList" "HOL-Library.Multiset"
begin

section \<open>Go strings\<close>

text \<open>
  A Go \<^verbatim>\<open>string\<close> is a sequence of bytes; it is modelled as \<^typ>\<open>string\<close>
  (a list of 8-bit characters). The functions below are the ones of package
  \<^verbatim>\<open>strings\<close> and \<^verbatim>\<open>strconv\<close> that
  \<^verbatim>\<open>internal/infrastructure/csv/reader.go\<close> calls.
\<close>

definition HasPrefix :: "string \<Rightarrow> string \<Rightarrow> bool" where
  "HasPrefix s p = (take (length p) s = p)"

definition TrimPrefix :: "string \<Rightarrow> string \<Rightarrow> string" where
  "TrimPrefix s p = (if HasPrefix s p then drop (length p) s else s)"

text \<open>
  \<^verbatim>\<open>unicode.IsSpace\<close> holds of the code points U+0009..U+000D, U+0020, U+0085,
  U+00A0, U+1680, U+2000..U+200A, U+2028, U+2029, U+202F, U+205F and U+3000. The list holds
  their UTF-8 encodings, the byte sequences \<^verbatim>\<open>strings.TrimSpace\<close> removes.
\<close>

definition whiteSpace :: "string list" where
  "whiteSpace =
    [[CHR 0x09], [CHR 0x0A], [CHR 0x0B], [CHR 0x0C], [CHR 0x0D], [CHR 0x20],
     [CHR 0xC2, CHR 0x85], [CHR 0xC2, CHR 0xA0],
     [CHR 0xE1, CHR 0x9A, CHR 0x80],
     [CHR 0xE2, CHR 0x80, CHR 0x80], [CHR 0xE2, CHR 0x80, CHR 0x81],
     [CHR 0xE2, CHR 0x80, CHR 0x82], [CHR 0xE2, CHR 0x80, CHR 0x83],
     [CHR 0xE2, CHR 0x80, CHR 0x84], [CHR 0xE2, CHR 0x80, CHR 0x85],
     [CHR 0xE2, CHR 0x80, CHR 0x86], [CHR 0xE2, CHR 0x80, CHR 0x87],
     [CHR 0xE2, CHR 0x80, CHR 0x88], [CHR 0xE2, CHR 0x80, CHR 0x89],
     [CHR 0xE2, CHR 0x80, CHR 0x8A],
     [CHR 0xE2, CHR 0x80, CHR 0xA8], [CHR 0xE2, CHR 0x80, CHR 0xA9],
     [CHR 0xE2, CHR 0x80, CHR 0xAF], [CHR 0xE2, CHR 0x81, CHR 0x9F],
     [CHR 0xE3, CHR 0x80, CHR 0x80]]"

definition spaceWidth :: "string list \<Rightarrow> string \<Rightarrow> nat" where
  "spaceWidth ws s = (case find (HasPrefix s) ws of None \<Rightarrow> 0 | Some w \<Rightarrow> length w)"

text \<open>The loop of \<^verbatim>\<open>TrimLeftFunc\<close>: drop white-space runes while there is one in front.\<close>

function trimLeft :: "string list \<Rightarrow> string \<Rightarrow> string" where
  "trimLeft ws s =
     (if spaceWidth ws s = 0 then s else trimLeft ws (drop (spaceWidth ws s) s))"
  by pat_completeness auto
termination
proof (relation "measure (\<lambda>(ws, s). length s)")
  fix ws :: "string list" and s :: string
  assume w: "spaceWidth ws s \<noteq> 0"
  then obtain x where f: "find (HasPrefix s) ws = Some x" and x: "x \<noteq> []"
    by (auto simp: spaceWidth_def split: option.splits)
  from f have "HasPrefix s x"
    by (auto simp: find_Some_iff)
  with x have "s \<noteq> []"
    by (auto simp: HasPrefix_def)
  with w show "((ws, drop (spaceWidth ws s) s), (ws, s)) \<in> measure (\<lambda>(ws, s). length s)"
    by simp
qed simp

declare trimLeft.simps [simp del]

definition TrimSpace :: "string \<Rightarrow> string" where
  "TrimSpace s = rev (trimLeft (map rev whiteSpace) (rev (trimLeft whiteSpace s)))"

text \<open>
  \<^verbatim>\<open>utf8.DecodeRuneInString\<close>: the code point at the head of a string and its width in
  bytes. A rune is an \<^verbatim>\<open>int32\<close>, here an \<^typ>\<open>int\<close>. \<open>first\<close> is the table of the
  same name in package \<^verbatim>\<open>utf8\<close>: for a leading byte of a sequence of two to four bytes,
  the length of the sequence and the range of its second byte; nothing for an ASCII byte
  and for a byte that starts no sequence. A byte that starts no well-formed sequence is
  read as \<^verbatim>\<open>RuneError\<close> (U+FFFD) of width 1.
\<close>

definition RuneError :: int where
  "RuneError = 0xFFFD"

definition first :: "int \<Rightarrow> (nat \<times> int \<times> int) option" where
  "first s0 =
     (if 0xC2 \<le> s0 \<and> s0 \<le> 0xDF then Some (2, 0x80, 0xBF)
      else if s0 = 0xE0 then Some (3, 0xA0, 0xBF)
      else if s0 = 0xED then Some (3, 0x80, 0x9F)
      else if 0xE1 \<le> s0 \<and> s0 \<le> 0xEF then Some (3, 0x80, 0xBF)
      else if s0 = 0xF0 then Some (4, 0x90, 0xBF)
      else if 0xF1 \<le> s0 \<and> s0 \<le> 0xF3 then Some (4, 0x80, 0xBF)
      else if s0 = 0xF4 then Some (4, 0x80, 0x8F)
      else None)"

definition DecodeRuneInString :: "string \<Rightarrow> int \<times> nat" where
  "DecodeRuneInString s =
     (if length s < 1 then (RuneError, 0)
      else
        let s0 = of_char (s ! 0) :: int in
        if s0 < 0x80 then (s0, 1)
        else
          (case first s0 of
             None \<Rightarrow> (RuneError, 1)
           | Some (sz, lo, hi) \<Rightarrow>
               if length s < sz then (RuneError, 1)
               else
                 let s1 = of_char (s ! 1) :: int in
                 if s1 < lo \<or> hi < s1 then (RuneError, 1)
                 else if sz \<le> 2 then (s0 mod 32 * 64 + s1 mod 64, 2)
                 else
                   let s2 = of_char (s ! 2) :: int in
                   if s2 < 0x80 \<or> 0xBF < s2 then (RuneError, 1)
                   else if sz \<le> 3 then (s0 mod 16 * 4096 + s1 mod 64 * 64 + s2 mod 64, 3)
                   else
                     let s3 = of_char (s ! 3) :: int in
                     if s3 < 0x80 \<or> 0xBF < s3 then (RuneError, 1)
                     else
                       (s0 mod 8 * 262144 + s1 mod 64 * 4096 + s2 mod 64 * 64 + s3 mod 64, 4)))"

text \<open>
  The runes of a string, as \<^verbatim>\<open>for _, c := range s\<close> yields them.
\<close>

function runes :: "string \<Rightarrow> int list" where
  "runes s =
     (if s = [] then []
      else fst (DecodeRuneInString s) # runes (drop (snd (DecodeRuneInString s)) s))"
  by pat_completeness auto
termination
proof (relation "measure length")
  fix s :: string
  assume "s \<noteq> []"
  then have "0 < snd (DecodeRuneInString s)"
    by (auto simp: DecodeRuneInString_def Let_def split: option.splits)
  with \<open>s \<noteq> []\<close> show "(drop (snd (DecodeRuneInString s)) s, s) \<in> measure length"
    by simp
qed simp

declare runes.simps [simp del]

text \<open>
  \<^verbatim>\<open>utf8.AppendRune\<close>, the bytes \<^verbatim>\<open>Builder.WriteRune\<close> writes for a rune that is not
  negative: a surrogate and a value above U+10FFFF are written as U+FFFD.
\<close>

definition AppendRune :: "int \<Rightarrow> string" where
  "AppendRune r =
     (if r \<le> 0x7F then [char_of r]
      else if r \<le> 0x7FF then [char_of (0xC0 + r div 64), char_of (0x80 + r mod 64)]
      else if 0x10FFFF < r \<or> (0xD800 \<le> r \<and> r \<le> 0xDFFF) then [CHR 0xEF, CHR 0xBF, CHR 0xBD]
      else if r \<le> 0xFFFF then
        [char_of (0xE0 + r div 4096), char_of (0x80 + r div 64 mod 64), char_of (0x80 + r mod 64)]
      else
        [char_of (0xF0 + r div 262144), char_of (0x80 + r div 4096 mod 64),
         char_of (0x80 + r div 64 mod 64), char_of (0x80 + r mod 64)])"

text \<open>
  \<^verbatim>\<open>strings.Map\<close>: the encodings of the mapped runes, one after the other; a rune mapped
  to a negative value is dropped. (The source copies the prefix of the string that the
  mapping leaves as it is; a rune that is left as it is has the bytes it was decoded from,
  all but a byte read as \<^verbatim>\<open>RuneError\<close>, which the source writes as U+FFFD as well.)
\<close>

definition strings_Map :: "(int \<Rightarrow> int) \<Rightarrow> string \<Rightarrow> string" where
  "strings_Map mapping s =
     concat (map (\<lambda>c. let r = mapping c in if 0 \<le> r then AppendRune r else []) (runes s))"

text \<open>
  \<^verbatim>\<open>unicode.ToLower\<close>. Above ASCII the result is \<^verbatim>\<open>unicode.To(unicode.LowerCase, r)\<close>,
  read from the table \<^verbatim>\<open>unicode.CaseRanges\<close> of the Go distribution. That table is
  not part of the sources; it is the parameter \<open>lowerCase\<close> of this function and of all
  that call it, so that what is proved holds of every table. (In Go's table U+0130 gives
  U+0069 and U+212A gives U+006B.)
\<close>

definition unicode_ToLower :: "(int \<Rightarrow> int) \<Rightarrow> int \<Rightarrow> int" where
  "unicode_ToLower lowerCase r =
     (if r \<le> 0x7F then (if 65 \<le> r \<and> r \<le> 90 then r + 32 else r) else lowerCase r)"

text \<open>
  \<^verbatim>\<open>strings.ToLower\<close>: a string of ASCII bytes has its upper-case letters replaced
  byte by byte; any other string is mapped rune by rune.
\<close>

definition toLowerByte :: "char \<Rightarrow> char" where
  "toLowerByte c =
     (if (65::nat) \<le> of_char c \<and> of_char c \<le> (90::nat)
      then char_of (of_char c + (32::nat)) else c)"

definition isASCII :: "string \<Rightarrow> bool" where
  "isASCII s = list_all (\<lambda>c. (of_char c :: nat) < 0x80) s"

definition ToLower :: "(int \<Rightarrow> int) \<Rightarrow> string \<Rightarrow> string" where
  "ToLower lowerCase s =
     (if isASCII s then map toLowerByte s else strings_Map (unicode_ToLower lowerCase) s)"

definition isDigit :: "char \<Rightarrow> bool" where
  "isDigit c = ((48::nat) \<le> of_char c \<and> of_char c \<le> (57::nat))"

definition digitVal :: "char \<Rightarrow> int" where
  "digitVal c = of_char c - 48"

definition digitsVal :: "string \<Rightarrow> int" where
  "digitsVal s = foldl (\<lambda>n c. n * 10 + digitVal c) 0 s"

text \<open>
  The language \<^verbatim>\<open>strconv.ParseInt(s, 10, bits)\<close>, \<^verbatim>\<open>strconv.Atoi\<close> and
  \<^verbatim>\<open>big.Int.SetString(s, 10)\<close> share: an optional sign and at least one decimal digit.
\<close>

definition parseDecimalInt :: "string \<Rightarrow> int option" where
  "parseDecimalInt s =
     (let signed = (s \<noteq> [] \<and> (hd s = CHR ''+'' \<or> hd s = CHR ''-''));
          body = (if signed then tl s else s)
      in if body = [] \<or> \<not> list_all isDigit body then None
         else if signed \<and> hd s = CHR ''-'' then Some (- digitsVal body)
         else Some (digitsVal body))"

definition ParseInt :: "string \<Rightarrow> nat \<Rightarrow> int option" where
  "ParseInt s bits =
     (case parseDecimalInt s of
        None \<Rightarrow> None
      | Some n \<Rightarrow> if - (2 ^ (bits - 1)) \<le> n \<and> n < 2 ^ (bits - 1) then Some n else None)"

text \<open>\<^verbatim>\<open>strconv.Atoi\<close> on a platform whose \<^verbatim>\<open>int\<close> has 64 bits.\<close>

definition Atoi :: "string \<Rightarrow> int option" where
  "Atoi s = ParseInt s 64"

section \<open>Exact decimals (github.com/shopspring/decimal)\<close>

text \<open>
  A \<^verbatim>\<open>decimal.Decimal\<close> is an unbounded integer \<^verbatim>\<open>value\<close> and an
  \<^verbatim>\<open>int32\<close> exponent \<^verbatim>\<open>exp\<close>; it denotes \<open>value * 10 ^ exp\<close>.
  The library is not part of the repository; the operations the repository calls are written
  down here as the library computes them.
\<close>

record Decimal =
  dvalue :: int
  dexp :: int

definition dec_val :: "Decimal \<Rightarrow> rat" where
  "dec_val d = of_int (dvalue d) * 10 powi (dexp d)"

definition int32 :: "int \<Rightarrow> bool" where
  "int32 e = (- 2147483648 \<le> e \<and> e \<le> 2147483647)"

text \<open>\<^verbatim>\<open>decimal.Zero\<close> is \<^verbatim>\<open>New(0, 1)\<close>; the zero value of the struct has exponent 0.\<close>

definition Zero :: Decimal where
  "Zero = \<lparr>dvalue = 0, dexp = 1\<rparr>"

definition zeroValue :: Decimal where
  "zeroValue = \<lparr>dvalue = 0, dexp = 0\<rparr>"

definition NewFromInt :: "int \<Rightarrow> Decimal" where
  "NewFromInt n = \<lparr>dvalue = n, dexp = 0\<rparr>"

definition indexOf :: "(char \<Rightarrow> bool) \<Rightarrow> string \<Rightarrow> nat option" where
  "indexOf P s = (if list_ex P s then Some (length (takeWhile (\<lambda>c. \<not> P c) s)) else None)"

definition isE :: "char \<Rightarrow> bool" where
  "isE c = (c = CHR ''E'' \<or> c = CHR ''e'')"

definition isPoint :: "char \<Rightarrow> bool" where
  "isPoint c = (c = CHR ''.'')"

text \<open>
  \<^verbatim>\<open>decimal.NewFromString\<close>: an optional exponent part after the first E or e, at most
  one decimal point, and the remaining characters read as an integer. Every failure is an
  error value of the library; the caller only tests for it, so the model returns \<open>None\<close>.
\<close>

definition splitExponent :: "string \<Rightarrow> (string \<times> int) option" where
  "splitExponent v =
     (case indexOf isE v of
        None \<Rightarrow> Some (v, 0)
      | Some eIndex \<Rightarrow>
          (case ParseInt (drop (eIndex + 1) v) 32 of
             None \<Rightarrow> None
           | Some expInt \<Rightarrow> Some (take eIndex v, expInt)))"

definition NewFromString :: "string \<Rightarrow> Decimal option" where
  "NewFromString v0 =
     (case splitExponent v0 of
        None \<Rightarrow> None
      | Some (v, exp0) \<Rightarrow>
          if 1 < length (filter isPoint v) then None
          else
            let (intString, e) =
                  (case indexOf isPoint v of
                     None \<Rightarrow> (v, exp0)
                   | Some pIndex \<Rightarrow>
                       (take pIndex v @ drop (pIndex + 1) v,
                        exp0 - int (length (drop (pIndex + 1) v))))
            in (case parseDecimalInt intString of
                  None \<Rightarrow> None
                | Some n \<Rightarrow> (if int32 e then Some \<lparr>dvalue = n, dexp = e\<rparr> else None)))"

definition Abs :: "Decimal \<Rightarrow> Decimal" where
  "Abs d = \<lparr>dvalue = \<bar>dvalue d\<bar>, dexp = dexp d\<rparr>"

definition Neg :: "Decimal \<Rightarrow> Decimal" where
  "Neg d = \<lparr>dvalue = - dvalue d, dexp = dexp d\<rparr>"

text \<open>\<^verbatim>\<open>rescale\<close>: the same number at another exponent, truncated towards zero when the exponent grows.\<close>

definition rescale :: "Decimal \<Rightarrow> int \<Rightarrow> Decimal" where
  "rescale d e =
     (if dexp d = e then d
      else if dexp d < e then \<lparr>dvalue = dvalue d sdiv 10 ^ nat (e - dexp d), dexp = e\<rparr>
      else \<lparr>dvalue = dvalue d * 10 ^ nat (dexp d - e), dexp = e\<rparr>)"

definition RescalePair :: "Decimal \<Rightarrow> Decimal \<Rightarrow> Decimal \<times> Decimal" where
  "RescalePair d1 d2 =
     (if dexp d1 < dexp d2 then (d1, rescale d2 (dexp d1))
      else if dexp d2 < dexp d1 then (rescale d1 (dexp d2), d2)
      else (d1, d2))"

definition Add :: "Decimal \<Rightarrow> Decimal \<Rightarrow> Decimal" where
  "Add d d2 = (let (rd, rd2) = RescalePair d d2 in \<lparr>dvalue = dvalue rd + dvalue rd2, dexp = dexp rd\<rparr>)"

definition Sub :: "Decimal \<Rightarrow> Decimal \<Rightarrow> Decimal" where
  "Sub d d2 = (let (rd, rd2) = RescalePair d d2 in \<lparr>dvalue = dvalue rd - dvalue rd2, dexp = dexp rd\<rparr>)"

text \<open>\<^verbatim>\<open>Cmp\<close> returns -1, 0 or 1.\<close>

definition intCmp :: "int \<Rightarrow> int \<Rightarrow> int" where
  "intCmp a b = (if a < b then - 1 else if a = b then 0 else 1)"

definition Cmp :: "Decimal \<Rightarrow> Decimal \<Rightarrow> int" where
  "Cmp d d2 =
     (if dexp d = dexp d2 then intCmp (dvalue d) (dvalue d2)
      else let (rd, rd2) = RescalePair d d2 in intCmp (dvalue rd) (dvalue rd2))"

definition GreaterThan :: "Decimal \<Rightarrow> Decimal \<Rightarrow> bool" where
  "GreaterThan d d2 = (Cmp d d2 = 1)"

definition Exponent :: "Decimal \<Rightarrow> int" where
  "Exponent d = dexp d"

section \<open>The amount parser (reader.go, parseAmount)\<close>

text \<open>\<^verbatim>\<open>domain.TransactionType\<close> is a string type with two named constants.\<close>

type_synonym TransactionType = string

definition Credit :: TransactionType where
  "Credit = ''credit''"

definition Debit :: TransactionType where
  "Debit = ''debit''"

text \<open>
  The errors of the reader are \<^verbatim>\<open>fmt.Errorf\<close> values; each message of the source is a
  constructor, with the values the message is formatted from. A wrapped error (\<^verbatim>\<open>%w\<close>)
  is an argument of the wrapping constructor.
\<close>

datatype error =
    AmountEmpty
  | InvalidAmount string
  | AmountOutOfRange string
  | AmountPrecisionExceeded string
  | InvalidDate string
  | MalformedRecord nat
  | MissingIdentifier
  | InvalidDateFormat string error
  | InvalidAmountFormat string error
  | CsvFieldCount nat
  | CsvSyntax nat
  | CsvReadFailed nat error
  | RecordParseFailed nat error
  | EmptyDataset

text \<open>\<^verbatim>\<open>decimal.NewFromFloat(1000000)\<close> is the shortest decimal of the float: 1 with exponent 6.\<close>

definition maxAmount :: Decimal where
  "maxAmount = \<lparr>dvalue = 1, dexp = 6\<rparr>"

text \<open>Lines 188 to 201: the leading sign character gives the type; the rest is the number.\<close>

definition splitSign :: "string \<Rightarrow> TransactionType \<times> string" where
  "splitSign amountStr =
     (if HasPrefix amountStr ''+'' then (Credit, TrimPrefix amountStr ''+'')
      else if HasPrefix amountStr ''-'' then (Debit, TrimPrefix amountStr ''-'')
      else (Credit, amountStr))"

definition parseAmount :: "string \<Rightarrow> error + (Decimal \<times> TransactionType)" where
  "parseAmount amountStr0 =
     (let amountStr = TrimSpace amountStr0 in
      if amountStr = [] then Inl AmountEmpty
      else
        let (transactionType, numericStr) = splitSign amountStr
        in case NewFromString numericStr of
             None \<Rightarrow> Inl (InvalidAmount numericStr)
           | Some parsed \<Rightarrow>
               (let amount = (if transactionType = Debit then Neg (Abs parsed) else Abs parsed)
                in if GreaterThan (Abs amount) maxAmount then Inl (AmountOutOfRange amountStr)
                   else if Exponent amount < - 2 then Inl (AmountPrecisionExceeded amountStr)
                   else Inr (amount, transactionType)))"

section \<open>Calendar dates (package time)\<close>

text \<open>
  Every \<^verbatim>\<open>time.Time\<close> of this program is made by \<^verbatim>\<open>time.Parse\<close> from a layout with
  no clock and no zone, or by \<^verbatim>\<open>AddDate\<close> from such a value: midnight in UTC. The
  model keeps the civil date, which is what \<^verbatim>\<open>Year()\<close>, \<^verbatim>\<open>Month()\<close>,
  \<^verbatim>\<open>Day()\<close> and \<^verbatim>\<open>Format("January")\<close> read.
\<close>

record Time =
  year :: int
  month :: nat
  day :: nat

definition isLeap :: "int \<Rightarrow> bool" where
  "isLeap y = (y mod 4 = 0 \<and> (y mod 100 \<noteq> 0 \<or> y mod 400 = 0))"

definition monthDays :: "nat list" where
  "monthDays = [31, 28, 31, 30, 31, 30, 31, 31, 30, 31, 30, 31]"

definition daysIn :: "nat \<Rightarrow> int \<Rightarrow> nat" where
  "daysIn m y =
     (if m = 2 \<and> isLeap y then 29
      else if 1 \<le> m \<and> m \<le> 12 then monthDays ! (m - 1) else 0)"

text \<open>
  \<^verbatim>\<open>time.Date\<close> normalises its arguments: a month outside 1..12 overflows into the
  year, and a day beyond the end of the month rolls into the following months. The program
  passes days from 1 on only (a parsed day is validated, and \<^verbatim>\<open>AddDate\<close> passes the day
  of an existing date), so the day is a natural number and rolling back from a day below 1
  is not modelled.
\<close>

function rollDays :: "int \<Rightarrow> nat \<Rightarrow> nat \<Rightarrow> Time" where
  "rollDays y m d =
     (if 0 < daysIn m y \<and> daysIn m y < d
      then (if m = 12 then rollDays (y + 1) 1 (d - daysIn m y)
            else rollDays y (m + 1) (d - daysIn m y))
      else \<lparr>year = y, month = m, day = d\<rparr>)"
  by pat_completeness auto
termination
  by (relation "measure (\<lambda>(y, m, d). d)") auto

declare rollDays.simps [simp del]

definition time_Date :: "int \<Rightarrow> int \<Rightarrow> nat \<Rightarrow> Time" where
  "time_Date y m d = rollDays (y + (m - 1) div 12) (nat ((m - 1) mod 12) + 1) d"

definition AddDate :: "Time \<Rightarrow> int \<Rightarrow> int \<Rightarrow> nat \<Rightarrow> Time" where
  "AddDate t years months days =
     time_Date (year t + years) (int (month t) + months) (day t + days)"

definition longMonthNames :: "string list" where
  "longMonthNames =
     [''January'', ''February'', ''March'', ''April'', ''May'', ''June'', ''July'',
      ''August'', ''September'', ''October'', ''November'', ''December'']"

text \<open>The decimal digits of a number that is not negative, and of any integer.\<close>

function showDigits :: "int \<Rightarrow> string" where
  "showDigits n =
     (if n < 10 then [char_of (48 + n)]
      else showDigits (n div 10) @ [char_of (48 + n mod 10)])"
  by pat_completeness auto
termination
  by (relation "measure nat") auto

declare showDigits.simps [simp del]

definition show_int :: "int \<Rightarrow> string" where
  "show_int i = (if i < 0 then ''-'' @ showDigits (- i) else showDigits i)"

text \<open>\<^verbatim>\<open>Month.String\<close>, which \<^verbatim>\<open>Format("January")\<close> prints for the month of a date.\<close>

definition Month_String :: "nat \<Rightarrow> string" where
  "Month_String m =
     (if 1 \<le> m \<and> m \<le> 12 then longMonthNames ! (m - 1)
      else ''%!Month('' @ showDigits (int m) @ '')'')"

definition Format_January :: "Time \<Rightarrow> string" where
  "Format_January t = Month_String (month t)"

subsection \<open>time.Parse on the layouts of parseDate\<close>

text \<open>
  \<^verbatim>\<open>nextStdChunk\<close> cuts a layout into reference elements and literal text. Of the
  elements of package time, the ten layouts of \<^verbatim>\<open>parseDate\<close> hold five: \<^verbatim>\<open>1\<close>,
  \<^verbatim>\<open>01\<close>, \<^verbatim>\<open>2\<close>, \<^verbatim>\<open>02\<close> and \<^verbatim>\<open>2006\<close>; the slash and the hyphen are
  literal text. Only these are modelled.
\<close>

datatype chunk =
    stdNumMonth
  | stdZeroMonth
  | stdDay
  | stdZeroDay
  | stdLongYear
  | literal char

function layoutChunks :: "string \<Rightarrow> chunk list" where
  "layoutChunks l =
     (if l = [] then []
      else if HasPrefix l ''01'' then stdZeroMonth # layoutChunks (drop 2 l)
      else if HasPrefix l ''02'' then stdZeroDay # layoutChunks (drop 2 l)
      else if HasPrefix l ''2006'' then stdLongYear # layoutChunks (drop 4 l)
      else if HasPrefix l ''1'' then stdNumMonth # layoutChunks (drop 1 l)
      else if HasPrefix l ''2'' then stdDay # layoutChunks (drop 1 l)
      else literal (hd l) # layoutChunks (tl l))"
  by pat_completeness auto
termination
  by (relation "measure length") auto

declare layoutChunks.simps [simp del]

definition isDigitAt :: "string \<Rightarrow> nat \<Rightarrow> bool" where
  "isDigitAt s i = (i < length s \<and> isDigit (s ! i))"

text \<open>\<^verbatim>\<open>getnum\<close>: one or two digits; exactly two when \<open>fixed\<close>.\<close>

definition getnum :: "string \<Rightarrow> bool \<Rightarrow> (int \<times> string) option" where
  "getnum s fixed =
     (if \<not> isDigitAt s 0 then None
      else if \<not> isDigitAt s 1 then
        (if fixed then None else Some (digitVal (s ! 0), drop 1 s))
      else Some (digitVal (s ! 0) * 10 + digitVal (s ! 1), drop 2 s))"

text \<open>The year, month and day \<^verbatim>\<open>parse\<close> collects; month and day start at -1.\<close>

record parsed =
  pyear :: int
  pmonth :: int
  pday :: int

fun parseChunks :: "chunk list \<Rightarrow> string \<Rightarrow> parsed \<Rightarrow> parsed option" where
  "parseChunks [] v st = (if v = [] then Some st else None)"
| "parseChunks (literal c # cs) v st =
     (if v \<noteq> [] \<and> hd v = c then parseChunks cs (tl v) st else None)"
| "parseChunks (stdNumMonth # cs) v st =
     (case getnum v False of
        None \<Rightarrow> None
      | Some (m, rest) \<Rightarrow>
          if m \<le> 0 \<or> 12 < m then None else parseChunks cs rest (st\<lparr>pmonth := m\<rparr>))"
| "parseChunks (stdZeroMonth # cs) v st =
     (case getnum v True of
        None \<Rightarrow> None
      | Some (m, rest) \<Rightarrow>
          if m \<le> 0 \<or> 12 < m then None else parseChunks cs rest (st\<lparr>pmonth := m\<rparr>))"
| "parseChunks (stdDay # cs) v st =
     (case getnum v False of
        None \<Rightarrow> None
      | Some (d, rest) \<Rightarrow> parseChunks cs rest (st\<lparr>pday := d\<rparr>))"
| "parseChunks (stdZeroDay # cs) v st =
     (case getnum v True of
        None \<Rightarrow> None
      | Some (d, rest) \<Rightarrow> parseChunks cs rest (st\<lparr>pday := d\<rparr>))"
| "parseChunks (stdLongYear # cs) v st =
     (if length v < 4 \<or> \<not> isDigitAt v 0 then None
      else if \<not> list_all isDigit (take 4 v) then None
      else parseChunks cs (drop 4 v) (st\<lparr>pyear := digitsVal (take 4 v)\<rparr>))"

text \<open>
  \<^verbatim>\<open>time.Parse\<close>: the elements in turn, no text left over, the defaults for what the
  layout does not hold, and the day validated against the month and the year.
\<close>

definition time_Parse :: "string \<Rightarrow> string \<Rightarrow> Time option" where
  "time_Parse layout v =
     (case parseChunks (layoutChunks layout) v \<lparr>pyear = 0, pmonth = - 1, pday = - 1\<rparr> of
        None \<Rightarrow> None
      | Some st \<Rightarrow>
          (let m = (if pmonth st < 0 then 1 else pmonth st);
               d = (if pday st < 0 then 1 else pday st)
           in if d < 1 \<or> int (daysIn (nat m) (pyear st)) < d then None
              else Some (time_Date (pyear st) m (nat d))))"

section \<open>The date parser (reader.go, parseDate)\<close>

definition formats :: "string list" where
  "formats =
     [''1/2'', ''1/02'', ''01/2'', ''01/02'',
      ''1/2/2006'', ''1/02/2006'', ''01/2/2006'', ''01/02/2006'',
      ''2006-01-02'', ''2006/01/02'']"

text \<open>
  The loop over the layouts. \<open>currentYear\<close> is what \<^verbatim>\<open>time.Now().Year()\<close> returns
  when the date is parsed.
\<close>

fun parseDateLoop :: "int \<Rightarrow> string list \<Rightarrow> string \<Rightarrow> error + Time" where
  "parseDateLoop currentYear [] dateStr = Inl (InvalidDate dateStr)"
| "parseDateLoop currentYear (format # rest) dateStr =
     (case time_Parse format dateStr of
        Some date \<Rightarrow>
          Inr (if year date = 0 then AddDate date currentYear 0 0 else date)
      | None \<Rightarrow> parseDateLoop currentYear rest dateStr)"

definition parseDate :: "int \<Rightarrow> string \<Rightarrow> error + Time" where
  "parseDate currentYear dateStr = parseDateLoop currentYear formats dateStr"

section \<open>The record parser (reader.go, parseTransaction and isHeaderRow)\<close>

text \<open>
  \<^verbatim>\<open>domain.Transaction\<close>. The fields \<^verbatim>\<open>ID\<close>, \<^verbatim>\<open>CreatedAt\<close> and \<^verbatim>\<open>UpdatedAt\<close>
  are filled from \<^verbatim>\<open>uuid.New()\<close> and \<^verbatim>\<open>time.Now()\<close>; no function of the reader or
  the calculator reads them, and the record leaves them out.
\<close>

record Transaction =
  AccountID :: string
  Date :: Time
  Amount :: Decimal
  Type :: TransactionType
  Description :: string

definition IsCredit :: "Transaction \<Rightarrow> bool" where
  "IsCredit t = (Type t = Credit)"

definition IsDebit :: "Transaction \<Rightarrow> bool" where
  "IsDebit t = (Type t = Debit)"

definition parseTransaction :: "int \<Rightarrow> string list \<Rightarrow> string \<Rightarrow> error + Transaction" where
  "parseTransaction currentYear rec accountID =
     (if length rec \<noteq> 3 then Inl (MalformedRecord (length rec))
      else
        let idStr = TrimSpace (rec ! 0) in
        if idStr = [] then Inl MissingIdentifier
        else
          let dateStr = TrimSpace (rec ! 1) in
          case parseDate currentYear dateStr of
            Inl err \<Rightarrow> Inl (InvalidDateFormat dateStr err)
          | Inr transactionDate \<Rightarrow>
              (let amountStr = TrimSpace (rec ! 2) in
               case parseAmount amountStr of
                 Inl err \<Rightarrow> Inl (InvalidAmountFormat amountStr err)
               | Inr (amount, transactionType) \<Rightarrow>
                   Inr \<lparr>AccountID = accountID, Date = transactionDate, Amount = amount,
                        Type = transactionType,
                        Description = ''Transaction '' @ idStr\<rparr>))"

definition isHeaderRow :: "(int \<Rightarrow> int) \<Rightarrow> string list \<Rightarrow> bool" where
  "isHeaderRow lowerCase rec =
     (if length rec \<noteq> 3 then False
      else
        let firstCol = ToLower lowerCase (TrimSpace (rec ! 0)) in
        if firstCol = ''id'' \<or> firstCol = ''transaction_id'' then True
        else
          let secondCol = ToLower lowerCase (TrimSpace (rec ! 1)) in
          if secondCol = ''date'' \<or> secondCol = ''transaction_date'' then True
          else
            let thirdCol = ToLower lowerCase (TrimSpace (rec ! 2)) in
            if thirdCol = ''amount'' \<or> thirdCol = ''transaction'' \<or> thirdCol = ''value''
            then True
            else (case Atoi (TrimSpace (rec ! 0)) of Some n \<Rightarrow> False | None \<Rightarrow> False))"

section \<open>The ingestion driver (reader.go, ReadTransactions)\<close>

text \<open>
  The model starts where the source has opened the file (line 77). The input is the file
  as the list of its lines, each as \<^verbatim>\<open>encoding/csv\<close> reads it: the fields of a record,
  a line with a syntax error of the CSV text, or an empty line. (A quoted field that runs
  over several lines is not part of this model.)
\<close>

datatype csvLine = Fields "string list" | BadSyntax | EmptyLine

text \<open>
  \<^verbatim>\<open>csv.Reader.Read\<close>, on the number of lines read so far (the reader's \<^verbatim>\<open>numLine\<close>)
  and the lines still to read: \<open>None\<close> is \<^verbatim>\<open>io.EOF\<close>. Empty lines are skipped.
  \<^verbatim>\<open>FieldsPerRecord = 3\<close> makes \<^verbatim>\<open>Read\<close> fail on a record with another number of fields.
  The error of the reader is a \<^verbatim>\<open>csv.ParseError\<close>, which carries the line of the file the
  record is on. The result holds the record or the error, and the new state of the reader.
\<close>

fun csvRead :: "nat \<Rightarrow> csvLine list \<Rightarrow> ((error + string list) \<times> nat \<times> csvLine list) option" where
  "csvRead numLine [] = None"
| "csvRead numLine (EmptyLine # rest) = csvRead (numLine + 1) rest"
| "csvRead numLine (BadSyntax # rest) = Some (Inl (CsvSyntax (numLine + 1)), numLine + 1, rest)"
| "csvRead numLine (Fields fs # rest) =
     Some (if length fs = 3 then Inr fs else Inl (CsvFieldCount (numLine + 1)), numLine + 1, rest)"

text \<open>
  The loop of lines 84 to 104, on the state of the CSV reader, the counter \<open>lineNumber\<close>
  and the transactions collected so far. The counter is incremented once for each record
  read.
\<close>

function readLoop ::
  "(int \<Rightarrow> int) \<Rightarrow> int \<Rightarrow> string \<Rightarrow> nat \<Rightarrow> csvLine list \<Rightarrow> nat \<Rightarrow> Transaction list \<Rightarrow>
     error + Transaction list" where
  "readLoop lowerCase currentYear accountID numLine lines lineNumber transactions =
     (case csvRead numLine lines of
        None \<Rightarrow> Inr transactions
      | Some (Inl err, numLine', rest) \<Rightarrow> Inl (CsvReadFailed (lineNumber + 1) err)
      | Some (Inr rec, numLine', rest) \<Rightarrow>
          if lineNumber + 1 = 1 \<and> isHeaderRow lowerCase rec
          then readLoop lowerCase currentYear accountID numLine' rest (lineNumber + 1) transactions
          else
            (case parseTransaction currentYear rec accountID of
               Inl err \<Rightarrow> Inl (RecordParseFailed (lineNumber + 1) err)
             | Inr transaction \<Rightarrow>
                 readLoop lowerCase currentYear accountID numLine' rest (lineNumber + 1)
                   (transactions @ [transaction])))"
  by pat_completeness auto
termination
proof -
  have shorter: "length rest < length lines"
    if "csvRead numLine lines = Some (r, numLine', rest)"
    for numLine lines r numLine' and rest :: "csvLine list"
    using that
    by (induction numLine lines rule: csvRead.induct) (auto split: if_splits)
  show ?thesis
    by (relation "measure (\<lambda>(lowerCase, currentYear, accountID, numLine, lines, lineNumber,
          transactions). length lines)")
      (auto dest: shorter)
qed

declare readLoop.simps [simp del]

definition ReadTransactions ::
  "(int \<Rightarrow> int) \<Rightarrow> int \<Rightarrow> csvLine list \<Rightarrow> string \<Rightarrow> error + Transaction list" where
  "ReadTransactions lowerCase currentYear lines accountID =
     (case readLoop lowerCase currentYear accountID 0 lines 0 [] of
        Inl err \<Rightarrow> Inl err
      | Inr transactions \<Rightarrow>
          if length transactions = 0 then Inl EmptyDataset else Inr transactions)"

section \<open>Division and printing of decimals\<close>

text \<open>
  A panic of the decimal library. \<^verbatim>\<open>big.Int.QuoRem\<close> truncates towards zero
  (\<open>sdiv\<close>, \<open>smod\<close>); \<^verbatim>\<open>big.Int.DivMod\<close> by ten is Euclidean (\<open>div\<close>, \<open>mod\<close>).
  The exponents are \<^verbatim>\<open>int32\<close> in the library; the sums of exponents below stay far
  from its bounds for the divisors the calculator passes (exponent 0).
\<close>

datatype panic = DivisionByZero | QuoRemOverflow

definition New :: "int \<Rightarrow> int \<Rightarrow> Decimal" where
  "New v e = \<lparr>dvalue = v, dexp = e\<rparr>"

definition QuoRem :: "Decimal \<Rightarrow> Decimal \<Rightarrow> int \<Rightarrow> panic + (Decimal \<times> Decimal)" where
  "QuoRem d d2 precision =
     (if dvalue d2 = 0 then Inl DivisionByZero
      else
        let scale = - precision;
            e = dexp d - dexp d2 - scale
        in if 2147483647 < e \<or> e < - 2147483648 then Inl QuoRemOverflow
           else
             let (aa, bb, scalerest) =
                   (if e < 0 then (dvalue d, dvalue d2 * 10 ^ nat (- e), dexp d)
                    else (dvalue d * 10 ^ nat e, dvalue d2, scale + dexp d2))
             in Inr (\<lparr>dvalue = aa sdiv bb, dexp = scale\<rparr>,
                     \<lparr>dvalue = aa smod bb, dexp = scalerest\<rparr>))"

definition DivRound :: "Decimal \<Rightarrow> Decimal \<Rightarrow> int \<Rightarrow> panic + Decimal" where
  "DivRound d d2 precision =
     (case QuoRem d d2 precision of
        Inl p \<Rightarrow> Inl p
      | Inr (q, r) \<Rightarrow>
          (let r2 = \<lparr>dvalue = \<bar>dvalue r\<bar> * 2, dexp = dexp r + precision\<rparr>;
               c = Cmp r2 (Abs d2)
           in if c < 0 then Inr q
              else if sgn (dvalue d) * sgn (dvalue d2) < 0
              then Inr (Sub q (New 1 (- precision)))
              else Inr (Add q (New 1 (- precision)))))"

definition DivisionPrecision :: int where
  "DivisionPrecision = 16"

definition Div :: "Decimal \<Rightarrow> Decimal \<Rightarrow> panic + Decimal" where
  "Div d d2 = DivRound d d2 DivisionPrecision"

definition Round :: "Decimal \<Rightarrow> int \<Rightarrow> Decimal" where
  "Round d places =
     (if dexp d = - places then d
      else
        let ret = rescale d (- places - 1);
            v1 = (if dvalue ret < 0 then dvalue ret - 5 else dvalue ret + 5);
            v2 = v1 div 10;
            m = v1 mod 10
        in \<lparr>dvalue = (if v2 < 0 \<and> m \<noteq> 0 then v2 + 1 else v2), dexp = dexp ret + 1\<rparr>)"

text \<open>\<^verbatim>\<open>Decimal.string(false)\<close>: the digits with the decimal point put in, zeros kept.\<close>

definition decString :: "Decimal \<Rightarrow> string" where
  "decString d =
     (if 0 \<le> dexp d then show_int (dvalue (rescale d 0))
      else
        let str = showDigits \<bar>dvalue d\<bar>;
            n = nat (- dexp d);
            (intPart, fractionalPart) =
              (if n < length str then (take (length str - n) str, drop (length str - n) str)
               else (''0'', replicate (n - length str) (CHR ''0'') @ str));
            number = (if 0 < length fractionalPart then intPart @ ''.'' @ fractionalPart
                      else intPart)
        in if dvalue d < 0 then ''-'' @ number else number)"

definition StringFixed :: "Decimal \<Rightarrow> int \<Rightarrow> string" where
  "StringFixed d places = decString (Round d places)"

section \<open>The aggregator (calculator.go)\<close>

text \<open>
  \<^verbatim>\<open>time.Month\<close> is a number; \<^verbatim>\<open>int\<close> counts are integers (a count is at most the
  length of a slice, so it does not overflow).
\<close>

record MonthlySummary =
  Month :: nat
  Year :: int
  TransactionCount :: int
  AverageCredit :: Decimal
  AverageDebit :: Decimal
  TotalCredits :: Decimal
  TotalDebits :: Decimal
  CreditCount :: int
  DebitCount :: int

text \<open>
  A Go map is an association list with distinct keys, in the order of first insertion.
  The order is of the model only: where the source ranges over a map and the order can be
  seen in the result, the order of the iteration is an argument of the function.
  \<^verbatim>\<open>ProcessedAt\<close> (the time of the call) is left out of the summary.
\<close>

record AccountSummary =
  SummaryAccountID :: string
  TotalBalance :: Decimal
  MonthlySummaries :: "(string \<times> MonthlySummary) list"
  TotalTransactions :: int

text \<open>A missing key reads as the nil slice.\<close>

definition lookupGroup :: "(string \<times> Transaction list) list \<Rightarrow> string \<Rightarrow> Transaction list" where
  "lookupGroup monthlyData monthKey =
     (case map_of monthlyData monthKey of None \<Rightarrow> [] | Some txs \<Rightarrow> txs)"

definition groupStep ::
  "(string \<times> Transaction list) list \<Rightarrow> Transaction \<Rightarrow> (string \<times> Transaction list) list" where
  "groupStep monthlyData tx =
     (let monthKey = Format_January (Date tx)
      in AList.update monthKey (lookupGroup monthlyData monthKey @ [tx]) monthlyData)"

definition groupTransactionsByMonth :: "Transaction list \<Rightarrow> (string \<times> Transaction list) list" where
  "groupTransactionsByMonth transactions = foldl groupStep [] transactions"

definition parseMonth :: "string \<Rightarrow> nat" where
  "parseMonth monthName =
     (if monthName = ''January'' then 1
      else if monthName = ''February'' then 2
      else if monthName = ''March'' then 3
      else if monthName = ''April'' then 4
      else if monthName = ''May'' then 5
      else if monthName = ''June'' then 6
      else if monthName = ''July'' then 7
      else if monthName = ''August'' then 8
      else if monthName = ''September'' then 9
      else if monthName = ''October'' then 10
      else if monthName = ''November'' then 11
      else if monthName = ''December'' then 12
      else 1)"

text \<open>The loop of lines 88 to 96: the sums and the counts of the credits and of the debits.\<close>

definition tally ::
  "Decimal \<times> Decimal \<times> int \<times> int \<Rightarrow> Transaction \<Rightarrow> Decimal \<times> Decimal \<times> int \<times> int" where
  "tally acc tx =
     (case acc of (totalCredits, totalDebits, creditCount, debitCount) \<Rightarrow>
        if IsCredit tx then (Add totalCredits (Amount tx), totalDebits, creditCount + 1, debitCount)
        else if IsDebit tx then (totalCredits, Add totalDebits (Amount tx), creditCount, debitCount + 1)
        else (totalCredits, totalDebits, creditCount, debitCount))"

text \<open>An average: the zero value of the struct when the count is not positive.\<close>

definition average :: "Decimal \<Rightarrow> int \<Rightarrow> panic + Decimal" where
  "average amount n = (if 0 < n then Div amount (NewFromInt n) else Inr zeroValue)"

definition calculateMonthlySummary ::
  "int \<Rightarrow> string \<Rightarrow> Transaction list \<Rightarrow> panic + MonthlySummary" where
  "calculateMonthlySummary currentYear monthKey transactions =
     (if length transactions = 0
      then Inr \<lparr>Month = parseMonth monthKey, Year = currentYear, TransactionCount = 0,
                AverageCredit = Zero, AverageDebit = Zero,
                TotalCredits = Zero, TotalDebits = Zero,
                CreditCount = 0, DebitCount = 0\<rparr>
      else
        (case foldl tally (Zero, Zero, 0, 0) transactions of
           (totalCredits, totalDebits, creditCount, debitCount) \<Rightarrow>
             (let sampleDate = Date (hd transactions) in
              case average totalCredits creditCount of
                Inl p \<Rightarrow> Inl p
              | Inr averageCredit \<Rightarrow>
                  (case average totalDebits debitCount of
                     Inl p \<Rightarrow> Inl p
                   | Inr averageDebit \<Rightarrow>
                       Inr \<lparr>Month = month sampleDate, Year = year sampleDate,
                            TransactionCount = int (length transactions),
                            AverageCredit = averageCredit, AverageDebit = averageDebit,
                            TotalCredits = totalCredits, TotalDebits = totalDebits,
                            CreditCount = creditCount, DebitCount = debitCount\<rparr>))))"

text \<open>
  The loop of lines 38 to 41 fills a map from a map, one entry for each; the map it
  builds does not depend on the order of the iteration.
\<close>

fun summariseMonths ::
  "int \<Rightarrow> (string \<times> Transaction list) list \<Rightarrow> panic + (string \<times> MonthlySummary) list" where
  "summariseMonths currentYear [] = Inr []"
| "summariseMonths currentYear ((monthKey, monthTransactions) # rest) =
     (case calculateMonthlySummary currentYear monthKey monthTransactions of
        Inl p \<Rightarrow> Inl p
      | Inr summary \<Rightarrow>
          (case summariseMonths currentYear rest of
             Inl p \<Rightarrow> Inl p
           | Inr monthlySummaries \<Rightarrow> Inr ((monthKey, summary) # monthlySummaries)))"

text \<open>
  \<^verbatim>\<open>CalculateSummary\<close> returns a nil error on every path, so the model has no error
  value: \<open>Inl\<close> is a panic of a division. \<open>currentYear\<close> is \<^verbatim>\<open>time.Now().Year()\<close>.
\<close>

definition CalculateSummary :: "int \<Rightarrow> string \<Rightarrow> Transaction list \<Rightarrow> panic + AccountSummary" where
  "CalculateSummary currentYear accountID transactions =
     (if length transactions = 0
      then Inr \<lparr>SummaryAccountID = accountID, TotalBalance = Zero, MonthlySummaries = [],
                TotalTransactions = 0\<rparr>
      else
        let totalBalance = foldl (\<lambda>b tx. Add b (Amount tx)) Zero transactions;
            monthlyData = groupTransactionsByMonth transactions
        in case summariseMonths currentYear monthlyData of
             Inl p \<Rightarrow> Inl p
           | Inr monthlySummaries \<Rightarrow>
               Inr \<lparr>SummaryAccountID = accountID, TotalBalance = totalBalance,
                    MonthlySummaries = monthlySummaries,
                    TotalTransactions = int (length transactions)\<rparr>)"

section \<open>The report formatter (calculator.go, FormatSummaryForEmail)\<close>

definition monthLine :: "string \<Rightarrow> string \<times> MonthlySummary \<Rightarrow> string" where
  "monthLine result entry =
     result @ ''Number of transactions in '' @ fst entry @ '': ''
       @ show_int (TransactionCount (snd entry)) @ ''\<newline>''"

definition overall ::
  "Decimal \<times> Decimal \<times> int \<times> int \<Rightarrow> string \<times> MonthlySummary \<Rightarrow> Decimal \<times> Decimal \<times> int \<times> int" where
  "overall acc entry =
     (case acc of (totalCredits, totalDebits, totalCreditCount, totalDebitCount) \<Rightarrow>
        (Add totalCredits (TotalCredits (snd entry)), Add totalDebits (TotalDebits (snd entry)),
         totalCreditCount + CreditCount (snd entry), totalDebitCount + DebitCount (snd entry)))"

text \<open>
  The source ranges over \<^verbatim>\<open>summary.MonthlySummaries\<close> twice. \<open>range1\<close> and \<open>range2\<close> are
  the entries of the map in the order the first and the second loop visit them.
\<close>

definition FormatSummaryForEmail ::
  "(string \<times> MonthlySummary) list \<Rightarrow> (string \<times> MonthlySummary) list \<Rightarrow> AccountSummary
     \<Rightarrow> panic + string" where
  "FormatSummaryForEmail range1 range2 summary =
     (let result0 = ''Total balance is '' @ StringFixed (TotalBalance summary) 2 @ ''\<newline>'';
          result1 = foldl monthLine result0 range1
      in case foldl overall (Zero, Zero, 0, 0) range2 of
           (totalCredits, totalDebits, totalCreditCount, totalDebitCount) \<Rightarrow>
             (case (if 0 < totalDebitCount
                    then (case Div totalDebits (NewFromInt totalDebitCount) of
                            Inl p \<Rightarrow> Inl p
                          | Inr averageDebit \<Rightarrow>
                              Inr (result1 @ ''Average debit amount: ''
                                     @ StringFixed averageDebit 2 @ ''\<newline>''))
                    else Inr result1) of
                Inl p \<Rightarrow> Inl p
              | Inr result2 \<Rightarrow>
                  if 0 < totalCreditCount
                  then (case Div totalCredits (NewFromInt totalCreditCount) of
                          Inl p \<Rightarrow> Inl p
                        | Inr averageCredit \<Rightarrow>
                            Inr (result2 @ ''Average credit amount: ''
                                   @ StringFixed averageCredit 2))
                  else Inr result2))"

text \<open>The lines of a text: the pieces between its newline characters.\<close>

fun splitLines :: "string \<Rightarrow> string \<Rightarrow> string list" where
  "splitLines cur [] = [cur]"
| "splitLines cur (c # cs) =
     (if c = CHR 0x0A then cur # splitLines [] cs else splitLines (cur @ [c]) cs)"

definition linesOf :: "string \<Rightarrow> string list" where
  "linesOf s = splitLines [] s"

section \<open>Notions of the specification\<close>

text \<open>
  The specification speaks of the digits after the decimal point of an input. In a numeric
  string they are the characters between the decimal point and the exponent part, if there
  is one.
\<close>

definition mantissa :: "string \<Rightarrow> string" where
  "mantissa v = (case indexOf isE v of None \<Rightarrow> v | Some eIndex \<Rightarrow> take eIndex v)"

definition fractionDigits :: "string \<Rightarrow> nat" where
  "fractionDigits v =
     (case indexOf isPoint (mantissa v) of
        None \<Rightarrow> 0
      | Some pIndex \<Rightarrow> length (mantissa v) - (pIndex + 1))"

text \<open>
  The specification speaks of the rows of the input. They are what the successive calls
  of \<^verbatim>\<open>Read\<close> return until \<^verbatim>\<open>io.EOF\<close>, each a record or an error of the CSV reader.
\<close>

function csvReadAll :: "nat \<Rightarrow> csvLine list \<Rightarrow> (error + string list) list" where
  "csvReadAll numLine lines =
     (case csvRead numLine lines of
        None \<Rightarrow> []
      | Some (r, numLine', rest) \<Rightarrow> r # csvReadAll numLine' rest)"
  by pat_completeness auto
termination
proof -
  have shorter: "length rest < length lines"
    if "csvRead numLine lines = Some (r, numLine', rest)"
    for numLine lines r numLine' and rest :: "csvLine list"
    using that
    by (induction numLine lines rule: csvRead.induct) (auto split: if_splits)
  show ?thesis
    by (relation "measure (\<lambda>(numLine, lines). length lines)") (auto dest: shorter)
qed

declare csvReadAll.simps [simp del]

section \<open>The example of the specification\<close>

text \<open>
  The four rows of the example in the specification, which are the data rows of the file in
  \<^verbatim>\<open>TestReader_ReadTransactions_LocalFile\<close>.
\<close>

definition exampleRows :: "csvLine list" where
  "exampleRows =
     [Fields [''1'', ''7/15'', ''+60.5''], Fields [''2'', ''7/28'', ''-10.3''],
      Fields [''3'', ''8/2'', ''-20.46''], Fields [''4'', ''8/13'', ''+10'']]"

text \<open>
  The transactions of the example as the record parser returns them in the year \<open>cy\<close>, the
  two monthly summaries the aggregator computes from them, and the report in its two orders
  of the months. The theorems on the example show that the code computes these values.
\<close>

definition transactionOf ::
  "string \<Rightarrow> int \<Rightarrow> nat \<Rightarrow> nat \<Rightarrow> int \<Rightarrow> int \<Rightarrow> TransactionType \<Rightarrow> string \<Rightarrow> Transaction" where
  "transactionOf acc y m d v e k i =
     \<lparr>AccountID = acc, Date = \<lparr>year = y, month = m, day = d\<rparr>,
      Amount = \<lparr>dvalue = v, dexp = e\<rparr>, Type = k, Description = ''Transaction '' @ i\<rparr>"

definition exampleTransactions :: "int \<Rightarrow> string \<Rightarrow> Transaction list" where
  "exampleTransactions cy acc =
     [transactionOf acc cy 7 15 605 (- 1) Credit ''1'',
      transactionOf acc cy 7 28 (- 103) (- 1) Debit ''2'',
      transactionOf acc cy 8 2 (- 2046) (- 2) Debit ''3'',
      transactionOf acc cy 8 13 10 0 Credit ''4'']"

definition exampleJuly :: "int \<Rightarrow> MonthlySummary" where
  "exampleJuly cy = \<lparr>Month = 7, Year = cy, TransactionCount = 2,
               AverageCredit = \<lparr>dvalue = 605000000000000000, dexp = - 16\<rparr>,
               AverageDebit = \<lparr>dvalue = - 103000000000000000, dexp = - 16\<rparr>,
               TotalCredits = \<lparr>dvalue = 605, dexp = - 1\<rparr>,
               TotalDebits = \<lparr>dvalue = - 103, dexp = - 1\<rparr>, CreditCount = 1,
               DebitCount = 1\<rparr>"

definition exampleAugust :: "int \<Rightarrow> MonthlySummary" where
  "exampleAugust cy = \<lparr>Month = 8, Year = cy, TransactionCount = 2,
               AverageCredit = \<lparr>dvalue = 100000000000000000, dexp = - 16\<rparr>,
               AverageDebit = \<lparr>dvalue = - 204600000000000000, dexp = - 16\<rparr>,
               TotalCredits = \<lparr>dvalue = 10, dexp = 0\<rparr>,
               TotalDebits = \<lparr>dvalue = - 2046, dexp = - 2\<rparr>, CreditCount = 1,
               DebitCount = 1\<rparr>"

definition exampleReportJulyFirst :: string where
  "exampleReportJulyFirst = ''Total balance is 39.74\<newline>Number of transactions in July: 2\<newline>Number of transactions in August: 2\<newline>Average debit amount: -15.38\<newline>Average credit amount: 35.25''"

definition exampleReportAugustFirst :: string where
  "exampleReportAugustFirst = ''Total balance is 39.74\<newline>Number of transactions in August: 2\<newline>Number of transactions in July: 2\<newline>Average debit amount: -15.38\<newline>Average credit amount: 35.25''"

text \<open>Two transactions of the same month in different years.\<close>

definition twoJulys :: "Transaction list" where
  "twoJulys =
     [\<lparr>AccountID = ''test-account'', Date = \<lparr>year = 2022, month = 7, day = 15\<rparr>,
       Amount = \<lparr>dvalue = 605, dexp = - 1\<rparr>, Type = Credit, Description = ''Transaction 1''\<rparr>,
      \<lparr>AccountID = ''test-account'', Date = \<lparr>year = 2023, month = 7, day = 28\<rparr>,
       Amount = \<lparr>dvalue = - 103, dexp = - 1\<rparr>, Type = Debit, Description = ''Transaction 2''\<rparr>]"

section \<open>Fields with a letter beyond ASCII\<close>

text \<open>
  U+0130, the capital letter I with a dot above, is the bytes C4 B0 in UTF-8. The first
  field is U+0130 followed by d; the second is \<open>TRANSACT\<close>, U+0130, \<open>ON\<close>.
\<close>

definition dottedId :: string where
  "dottedId = [CHR 0xC4, CHR 0xB0, CHR ''d'']"

definition dottedTransaction :: string where
  "dottedTransaction = ''TRANSACT'' @ [CHR 0xC4, CHR 0xB0] @ ''ON''"

section \<open>The rounding of a quotient\<close>

text \<open>
  The integer \<^verbatim>\<open>DivRound\<close> arrives at from the truncated quotient and the remainder of two
  integers: the quotient, moved one away from zero when twice the remainder reaches the
  divisor.
\<close>

definition roundedQuotient :: "int \<Rightarrow> int \<Rightarrow> int" where
  "roundedQuotient a b =
     (if \<bar>a smod b\<bar> * 2 < b then a sdiv b
      else if a < 0 then a sdiv b - 1 else a sdiv b + 1)"

section \<open>Facts about decimals\<close>

lemma pow10_pos: "(0::rat) < 10 powi e"
  by (rule zero_less_power_int) simp

lemma pow10_not_le: "\<not> (10::rat) powi e \<le> 0"
  using pow10_pos [of e] by (simp only: not_le)

lemma pow10_split: "e \<le> f \<Longrightarrow> (10::rat) powi f = of_int (10 ^ nat (f - e)) * 10 powi e"
proof -
  assume le: "e \<le> f"
  define n where "n = nat (f - e)"
  have f: "f = int n + e"
    using le by (simp add: n_def)
  have "(10::rat) powi (int n + e) = 10 powi (int n) * 10 powi e"
    by (rule power_int_add) simp
  then have "(10::rat) powi f = of_int (10 ^ n) * 10 powi e"
    unfolding f by simp
  then show ?thesis
    by (simp add: n_def)
qed

lemma dec_val_Abs: "dec_val (Abs d) = \<bar>dec_val d\<bar>"
  using pow10_pos [of "dexp d"] by (simp add: dec_val_def Abs_def abs_mult)

lemma dec_val_Neg: "dec_val (Neg d) = - dec_val d"
  by (simp add: dec_val_def Neg_def)

lemma Credit_neq_Debit: "Credit \<noteq> Debit"
  by (simp add: Credit_def Debit_def)

lemma dec_val_rescale_down: "e \<le> dexp d \<Longrightarrow> dec_val (rescale d e) = dec_val d"
  using pow10_split [of e "dexp d"] by (simp add: rescale_def dec_val_def)

lemma dexp_rescale: "dexp (rescale d e) = e"
  by (simp add: rescale_def)

lemma RescalePair_props:
  assumes "RescalePair d1 d2 = (r1, r2)"
  shows "dec_val r1 = dec_val d1" "dec_val r2 = dec_val d2"
        "dexp r1 = min (dexp d1) (dexp d2)" "dexp r2 = min (dexp d1) (dexp d2)"
  using assms
  by (auto simp: RescalePair_def dec_val_rescale_down dexp_rescale split: if_splits)

lemma same_exp_less: "dexp a = dexp b \<Longrightarrow> (dvalue a < dvalue b) = (dec_val a < dec_val b)"
  by (auto simp: dec_val_def mult_less_cancel_right pow10_not_le pow10_pos)

lemma same_exp_eq: "dexp a = dexp b \<Longrightarrow> (dvalue a = dvalue b) = (dec_val a = dec_val b)"
  using pow10_pos [of "dexp b"] by (simp add: dec_val_def)

text \<open>\<^verbatim>\<open>Cmp\<close> compares the numbers the two decimals denote.\<close>

lemma Cmp_val:
  "Cmp d d2 = (if dec_val d < dec_val d2 then - 1 else if dec_val d = dec_val d2 then 0 else 1)"
proof -
  obtain r1 r2 where r: "RescalePair d d2 = (r1, r2)"
    by (cases "RescalePair d d2")
  have e: "dexp r1 = dexp r2"
    using RescalePair_props(3,4) [OF r] by simp
  have "Cmp d d2 = intCmp (dvalue r1) (dvalue r2)"
    using r by (auto simp: Cmp_def RescalePair_def)
  also have "\<dots> = (if dec_val r1 < dec_val r2 then - 1 else if dec_val r1 = dec_val r2 then 0 else 1)"
    using same_exp_less [OF e] same_exp_eq [OF e] by (simp add: intCmp_def)
  finally show ?thesis
    using RescalePair_props(1,2) [OF r] by simp
qed

lemma GreaterThan_val: "GreaterThan d d2 = (dec_val d2 < dec_val d)"
  by (auto simp: GreaterThan_def Cmp_val)

text \<open>\<^verbatim>\<open>Add\<close> is exact, and its exponent is the smaller of the two.\<close>

lemma dec_val_Add: "dec_val (Add d d2) = dec_val d + dec_val d2"
proof -
  obtain r1 r2 where r: "RescalePair d d2 = (r1, r2)"
    by (cases "RescalePair d d2")
  have e: "dexp r1 = dexp r2"
    using RescalePair_props(3,4) [OF r] by simp
  have "dec_val (Add d d2) = dec_val r1 + dec_val r2"
    using r e by (simp add: Add_def dec_val_def algebra_simps)
  then show ?thesis
    using RescalePair_props(1,2) [OF r] by simp
qed

lemma dexp_Add: "dexp (Add d d2) = min (dexp d) (dexp d2)"
proof -
  obtain r1 r2 where r: "RescalePair d d2 = (r1, r2)"
    by (cases "RescalePair d d2")
  then show ?thesis
    using RescalePair_props(3) [OF r] by (simp add: Add_def)
qed

lemma dec_val_maxAmount: "dec_val maxAmount = 1000000"
  by (simp add: dec_val_def maxAmount_def)

section \<open>The amount parser\<close>

lemma splitSign_type:
  "fst (splitSign v) = (if HasPrefix v ''-'' then Debit else Credit)"
  by (auto simp: splitSign_def HasPrefix_def)

lemma signed_amount_val:
  "dec_val (if k = Debit then Neg (Abs p) else Abs p) =
     (if k = Debit then - \<bar>dec_val p\<bar> else \<bar>dec_val p\<bar>)"
  by (simp add: dec_val_Neg dec_val_Abs)

lemma signed_amount_exp: "dexp (if k = Debit then Neg (Abs p) else Abs p) = dexp p"
  by (simp add: Neg_def Abs_def)

text \<open>What \<^verbatim>\<open>parseAmount\<close> returns once the numeric remainder has parsed.\<close>

lemma parseAmount_numeric:
  assumes "NewFromString (snd (splitSign (TrimSpace s))) = Some p"
  shows "parseAmount s =
     (let k = fst (splitSign (TrimSpace s));
          a = (if k = Debit then Neg (Abs p) else Abs p)
      in if 1000000 < \<bar>dec_val p\<bar> then Inl (AmountOutOfRange (TrimSpace s))
         else if dexp p < - 2 then Inl (AmountPrecisionExceeded (TrimSpace s))
         else Inr (a, k))"
proof -
  have ne: "TrimSpace s \<noteq> []"
  proof
    assume "TrimSpace s = []"
    then have "NewFromString (snd (splitSign (TrimSpace s))) = None"
      by (simp add: splitSign_def HasPrefix_def NewFromString_def splitExponent_def
          indexOf_def parseDecimalInt_def)
    with assms show False
      by simp
  qed
  obtain k v where kv: "splitSign (TrimSpace s) = (k, v)"
    by (cases "splitSign (TrimSpace s)")
  have abs2: "\<bar>dec_val (if k = Debit then Neg (Abs p) else Abs p)\<bar> = \<bar>dec_val p\<bar>"
    by (simp add: signed_amount_val)
  show ?thesis
    using assms ne kv abs2
    by (simp add: parseAmount_def Let_def GreaterThan_val dec_val_Abs dec_val_maxAmount
        Exponent_def signed_amount_exp)
qed

lemma parseAmount_Inr:
  assumes "parseAmount s = Inr (a, k)"
  shows "\<exists>p. NewFromString (snd (splitSign (TrimSpace s))) = Some p \<and>
           k = fst (splitSign (TrimSpace s)) \<and>
           a = (if k = Debit then Neg (Abs p) else Abs p) \<and>
           \<bar>dec_val p\<bar> \<le> 1000000 \<and> - 2 \<le> dexp p"
proof (cases "NewFromString (snd (splitSign (TrimSpace s)))")
  case None
  with assms show ?thesis
    by (auto simp: parseAmount_def Let_def split: if_splits prod.splits)
next
  case (Some p)
  from assms show ?thesis
    unfolding parseAmount_numeric [OF Some]
    by (auto simp: Some Let_def split: if_splits)
qed

lemma parseTransaction_Inr:
  assumes "parseTransaction cy rec acc = Inr t"
  shows "length rec = 3 \<and> TrimSpace (rec ! 0) \<noteq> [] \<and>
         parseDate cy (TrimSpace (rec ! 1)) = Inr (Date t) \<and>
         parseAmount (TrimSpace (rec ! 2)) = Inr (Amount t, Type t) \<and>
         AccountID t = acc \<and> Description t = ''Transaction '' @ TrimSpace (rec ! 0)"
  using assms
  by (auto simp: parseTransaction_def Let_def split: if_splits sum.splits prod.splits)

lemma parseAmount_kind:
  assumes "parseAmount s = Inr (a, k)"
  shows "(k = Debit) = HasPrefix (TrimSpace s) ''-'' \<and>
         (k = Credit) = (\<not> HasPrefix (TrimSpace s) ''-'') \<and>
         (if k = Debit then dec_val a \<le> 0 else 0 \<le> dec_val a) \<and>
         (\<exists>p. NewFromString (snd (splitSign (TrimSpace s))) = Some p \<and>
              \<bar>dec_val a\<bar> = \<bar>dec_val p\<bar>)"
proof -
  from parseAmount_Inr [OF assms] obtain p where
    p: "NewFromString (snd (splitSign (TrimSpace s))) = Some p" and
    k: "k = fst (splitSign (TrimSpace s))" and
    a: "a = (if k = Debit then Neg (Abs p) else Abs p)"
    by blast
  have v: "dec_val a = (if k = Debit then - \<bar>dec_val p\<bar> else \<bar>dec_val p\<bar>)"
    unfolding a by (rule signed_amount_val)
  have k2: "k = (if HasPrefix (TrimSpace s) ''-'' then Debit else Credit)"
    unfolding k by (rule splitSign_type)
  show ?thesis
    using p v k2 Credit_neq_Debit by auto
qed

lemma parseAmount_minus_zero: "parseAmount ''-0'' = Inr (\<lparr>dvalue = 0, dexp = 0\<rparr>, Debit)"
  by code_simp

lemma parseTransaction_debit:
  "parseTransaction 2023 [''2'', ''7/28'', ''-10.3''] ''acc'' =
     Inr \<lparr>AccountID = ''acc'', Date = \<lparr>year = 2023, month = 7, day = 28\<rparr>,
          Amount = \<lparr>dvalue = - 103, dexp = - 1\<rparr>, Type = Debit,
          Description = ''Transaction 2''\<rparr>"
  by code_simp

text \<open>
  Claim C1, as the code has it. The type of an accepted amount is read off the sign
  character: Debit exactly when the trimmed input starts with a minus sign, Credit
  otherwise. The amount of a Debit is at most zero and the amount of a Credit is at least
  zero, so a negative amount is a Debit and a positive amount is a Credit; the magnitude is
  the magnitude of the numeric remainder, whatever sign is written inside it. The same holds
  of the amount and the type of every transaction the record parser returns.
\<close>

theorem amount_kind_follows_sign_character:
  "(parseAmount s = Inr (a, k) \<longrightarrow>
      (k = Debit) = HasPrefix (TrimSpace s) ''-'' \<and>
      (k = Credit) = (\<not> HasPrefix (TrimSpace s) ''-'') \<and>
      (if k = Debit then dec_val a \<le> 0 else 0 \<le> dec_val a) \<and>
      (\<exists>p. NewFromString (snd (splitSign (TrimSpace s))) = Some p \<and>
           \<bar>dec_val a\<bar> = \<bar>dec_val p\<bar>)) \<and>
   (parseTransaction cy rec acc = Inr t \<longrightarrow>
      (Type t = Debit) = HasPrefix (TrimSpace (TrimSpace (rec ! 2))) ''-'' \<and>
      (Type t = Credit) = (\<not> HasPrefix (TrimSpace (TrimSpace (rec ! 2))) ''-'') \<and>
      (if Type t = Debit then dec_val (Amount t) \<le> 0 else 0 \<le> dec_val (Amount t)))"
proof (intro conjI impI)
  assume h: "parseAmount s = Inr (a, k)"
  from parseAmount_kind [OF h]
  show "(k = Debit) = HasPrefix (TrimSpace s) ''-''"
    and "(k = Credit) = (\<not> HasPrefix (TrimSpace s) ''-'')"
    and "if k = Debit then dec_val a \<le> 0 else 0 \<le> dec_val a"
    and "\<exists>p. NewFromString (snd (splitSign (TrimSpace s))) = Some p \<and>
           \<bar>dec_val a\<bar> = \<bar>dec_val p\<bar>"
    by blast+
next
  assume h: "parseTransaction cy rec acc = Inr t"
  from parseTransaction_Inr [OF h]
  have pa: "parseAmount (TrimSpace (rec ! 2)) = Inr (Amount t, Type t)"
    by blast
  from parseAmount_kind [OF pa]
  show "(Type t = Debit) = HasPrefix (TrimSpace (TrimSpace (rec ! 2))) ''-''"
    and "(Type t = Credit) = (\<not> HasPrefix (TrimSpace (TrimSpace (rec ! 2))) ''-'')"
    and "if Type t = Debit then dec_val (Amount t) \<le> 0 else 0 \<le> dec_val (Amount t)"
    by blast+
qed

theorem amount_kind_follows_sign_character_witness:
  "parseAmount ''-0'' = Inr (\<lparr>dvalue = 0, dexp = 0\<rparr>, Debit) \<and>
   HasPrefix (TrimSpace ''-0'') ''-'' \<and>
   dec_val \<lparr>dvalue = 0, dexp = 0\<rparr> \<le> 0 \<and>
   parseTransaction 2023 [''2'', ''7/28'', ''-10.3''] ''acc'' =
     Inr \<lparr>AccountID = ''acc'', Date = \<lparr>year = 2023, month = 7, day = 28\<rparr>,
          Amount = \<lparr>dvalue = - 103, dexp = - 1\<rparr>, Type = Debit,
          Description = ''Transaction 2''\<rparr> \<and>
   dec_val \<lparr>dvalue = - 103, dexp = - 1\<rparr> \<le> 0"
  using amount_kind_follows_sign_character
    [of "''-0''" "\<lparr>dvalue = 0, dexp = 0\<rparr>" Debit 2023 "[''2'', ''7/28'', ''-10.3'']" "''acc''"
        "\<lparr>AccountID = ''acc'', Date = \<lparr>year = 2023, month = 7, day = 28\<rparr>,
          Amount = \<lparr>dvalue = - 103, dexp = - 1\<rparr>, Type = Debit,
          Description = ''Transaction 2''\<rparr>"]
    parseAmount_minus_zero parseTransaction_debit
  by simp

text \<open>
  Claim C1 as it is stated fails: the inputs \<open>-0\<close> and \<open>-0.00\<close> are accepted as Debit
  with an amount that is zero, not below zero.
\<close>

theorem debit_zero_counterexample:
  "parseAmount ''-0'' = Inr (\<lparr>dvalue = 0, dexp = 0\<rparr>, Debit) \<and>
   \<not> dec_val \<lparr>dvalue = 0, dexp = 0\<rparr> < 0 \<and>
   parseAmount ''-0.00'' = Inr (\<lparr>dvalue = 0, dexp = - 2\<rparr>, Debit) \<and>
   \<not> dec_val \<lparr>dvalue = 0, dexp = - 2\<rparr> < 0"
proof -
  have "parseAmount ''-0.00'' = Inr (\<lparr>dvalue = 0, dexp = - 2\<rparr>, Debit)"
    by code_simp
  then show ?thesis
    using parseAmount_minus_zero by (simp add: dec_val_def)
qed

lemma NewFromString_plain_exp:
  assumes "NewFromString v = Some p" and "indexOf isE v = None"
  shows "dexp p = - int (fractionDigits v)"
  using assms
  by (auto simp: NewFromString_def splitExponent_def fractionDigits_def mantissa_def Let_def
      indexOf_def
      split: option.splits if_splits prod.splits)

text \<open>
  Claim C5, as the code has it. For an input whose numeric remainder parses to \<open>p\<close>: the
  parser fails with AmountOutOfRange exactly when the magnitude of \<open>p\<close> exceeds 1,000,000;
  it fails with AmountPrecisionExceeded exactly when the magnitude is at most 1,000,000 and
  the exponent of \<open>p\<close> is below -2; it accepts in the remaining case, and the accepted
  amount has the magnitude and the exponent of \<open>p\<close> (nothing is rounded or truncated).
  For a remainder with no exponent part, the exponent is minus the number of digits after
  the decimal point.
\<close>

theorem amount_limits:
  assumes "NewFromString (snd (splitSign (TrimSpace s))) = Some p"
  shows "(parseAmount s = Inl (AmountOutOfRange (TrimSpace s))) = (1000000 < \<bar>dec_val p\<bar>) \<and>
         (parseAmount s = Inl (AmountPrecisionExceeded (TrimSpace s))) =
            (\<bar>dec_val p\<bar> \<le> 1000000 \<and> dexp p < - 2) \<and>
         (\<exists>a k. parseAmount s = Inr (a, k)) = (\<bar>dec_val p\<bar> \<le> 1000000 \<and> - 2 \<le> dexp p) \<and>
         (\<forall>a k. parseAmount s = Inr (a, k) \<longrightarrow> \<bar>dec_val a\<bar> = \<bar>dec_val p\<bar> \<and> dexp a = dexp p) \<and>
         (indexOf isE (snd (splitSign (TrimSpace s))) = None \<longrightarrow>
            dexp p = - int (fractionDigits (snd (splitSign (TrimSpace s)))))"
proof -
  note eq = parseAmount_numeric [OF assms]
  have 1: "(parseAmount s = Inl (AmountOutOfRange (TrimSpace s))) = (1000000 < \<bar>dec_val p\<bar>)"
    unfolding eq by (simp add: Let_def)
  have 2: "(parseAmount s = Inl (AmountPrecisionExceeded (TrimSpace s))) =
            (\<bar>dec_val p\<bar> \<le> 1000000 \<and> dexp p < - 2)"
    unfolding eq by (simp add: Let_def not_less)
  have 3: "(\<exists>a k. parseAmount s = Inr (a, k)) = (\<bar>dec_val p\<bar> \<le> 1000000 \<and> - 2 \<le> dexp p)"
    unfolding eq by (simp add: Let_def not_less)
  have 4: "\<forall>a k. parseAmount s = Inr (a, k) \<longrightarrow> \<bar>dec_val a\<bar> = \<bar>dec_val p\<bar> \<and> dexp a = dexp p"
  proof (intro allI impI)
    fix a k
    assume "parseAmount s = Inr (a, k)"
    from parseAmount_Inr [OF this] assms
    have "a = (if k = Debit then Neg (Abs p) else Abs p)"
      by auto
    then show "\<bar>dec_val a\<bar> = \<bar>dec_val p\<bar> \<and> dexp a = dexp p"
      by (simp add: signed_amount_val signed_amount_exp)
  qed
  have 5: "indexOf isE (snd (splitSign (TrimSpace s))) = None \<longrightarrow>
            dexp p = - int (fractionDigits (snd (splitSign (TrimSpace s))))"
    using NewFromString_plain_exp [OF assms] by blast
  from 1 2 3 4 5 show ?thesis
    by blast
qed

lemma parse_100_123:
  "NewFromString (snd (splitSign (TrimSpace ''100.123''))) =
     Some \<lparr>dvalue = 100123, dexp = - 3\<rparr>"
  by code_simp

theorem amount_limits_witness:
  "NewFromString (snd (splitSign (TrimSpace ''100.123''))) =
     Some \<lparr>dvalue = 100123, dexp = - 3\<rparr> \<and>
   parseAmount ''100.123'' = Inl (AmountPrecisionExceeded (TrimSpace ''100.123'')) \<and>
   parseAmount ''100.123'' \<noteq> Inl (AmountOutOfRange (TrimSpace ''100.123''))"
proof -
  have v: "\<bar>dec_val \<lparr>dvalue = 100123, dexp = - 3\<rparr>\<bar> \<le> 1000000"
    by (simp add: dec_val_def)
  show ?thesis
    using amount_limits [OF parse_100_123] parse_100_123 v by simp
qed

text \<open>
  Claim C5 as it is stated fails: \<open>1000000.001\<close> carries three digits after the decimal
  point, and the parser fails with AmountOutOfRange, not with AmountPrecisionExceeded: the
  magnitude is checked first.
\<close>

theorem precision_after_range_counterexample:
  "NewFromString ''1000000.001'' = Some \<lparr>dvalue = 1000000001, dexp = - 3\<rparr> \<and>
   2 < fractionDigits ''1000000.001'' \<and>
   parseAmount ''1000000.001'' = Inl (AmountOutOfRange ''1000000.001'') \<and>
   parseAmount ''1000000.001'' \<noteq> Inl (AmountPrecisionExceeded ''1000000.001'')"
proof -
  have "NewFromString ''1000000.001'' = Some \<lparr>dvalue = 1000000001, dexp = - 3\<rparr>"
    and "2 < fractionDigits ''1000000.001''"
    and "parseAmount ''1000000.001'' = Inl (AmountOutOfRange ''1000000.001'')"
    by code_simp+
  then show ?thesis
    by simp
qed

section \<open>The header classifier\<close>

text \<open>
  The keyword tests decide alone: the integer test on the first field comes after them
  and returns what the function returns anyway.
\<close>

lemma isHeaderRow_keywords:
  "isHeaderRow lowerCase rec =
     (length rec = 3 \<and>
      (ToLower lowerCase (TrimSpace (rec ! 0)) = ''id'' \<or>
       ToLower lowerCase (TrimSpace (rec ! 0)) = ''transaction_id'' \<or>
       ToLower lowerCase (TrimSpace (rec ! 1)) = ''date'' \<or>
       ToLower lowerCase (TrimSpace (rec ! 1)) = ''transaction_date'' \<or>
       ToLower lowerCase (TrimSpace (rec ! 2)) = ''amount'' \<or>
       ToLower lowerCase (TrimSpace (rec ! 2)) = ''transaction'' \<or>
       ToLower lowerCase (TrimSpace (rec ! 2)) = ''value''))"
  by (simp add: isHeaderRow_def Let_def split: option.split)

lemma header_of_the_tests: "isHeaderRow lowerCase [''Id'', ''Date'', ''Transaction'']"
  by code_simp

text \<open>
  The result of \<open>ToLower\<close> depends on the table only at the runes of the string that are
  beyond ASCII.
\<close>

lemma ToLower_table:
  assumes "\<And>r. r \<in> set (runes s) \<Longrightarrow> 0x7F < r \<Longrightarrow> lowerCase r = lowerCase' r"
  shows "ToLower lowerCase s = ToLower lowerCase' s"
proof -
  have "unicode_ToLower lowerCase r = unicode_ToLower lowerCase' r" if "r \<in> set (runes s)" for r
    using assms [OF that] by (simp add: unicode_ToLower_def)
  then have "strings_Map (unicode_ToLower lowerCase) s = strings_Map (unicode_ToLower lowerCase') s"
    unfolding strings_Map_def by (intro arg_cong [of _ _ concat] map_cong refl) simp
  then show ?thesis
    by (simp only: ToLower_def)
qed

text \<open>
  An upper-case letter beyond ASCII is lowered through the table: with U+0130 lowered to
  U+0069, as in Go, a first field that is U+0130 followed by d is the keyword \<open>id\<close>, and
  \<open>TRANSACT\<close>, U+0130, \<open>ON\<close> is the keyword \<open>transaction\<close>.
\<close>

lemma runes_examples:
  "runes dottedId = [0x130, 100]"
  "runes dottedTransaction =
     [84, 82, 65, 78, 83, 65, 67, 84, 0x130, 79, 78]"
  by code_simp+

lemma ToLower_dotted_I:
  assumes "lowerCase 0x130 = 0x69"
  shows "ToLower lowerCase dottedId = ''id''"
    and "ToLower lowerCase dottedTransaction = ''transaction''"
proof -
  have "ToLower lowerCase dottedId =
      ToLower (\<lambda>r. if r = 0x130 then 0x69 else r) dottedId"
    by (rule ToLower_table) (auto simp: runes_examples assms)
  also have "\<dots> = ''id''"
    by code_simp
  finally show "ToLower lowerCase dottedId = ''id''" .
  have "ToLower lowerCase dottedTransaction =
      ToLower (\<lambda>r. if r = 0x130 then 0x69 else r) dottedTransaction"
    by (rule ToLower_table) (auto simp: runes_examples assms)
  also have "\<dots> = ''transaction''"
    by code_simp
  finally show "ToLower lowerCase dottedTransaction = ''transaction''" .
qed

lemma isHeaderRow_dotted_I:
  assumes "lowerCase 0x130 = 0x69"
  shows "isHeaderRow lowerCase [dottedId, ''Date2'', ''Txn'']"
    and "isHeaderRow lowerCase [''1'', ''x'', dottedTransaction]"
proof -
  have "TrimSpace dottedId = dottedId"
    and "TrimSpace dottedTransaction = dottedTransaction"
    by code_simp+
  with ToLower_dotted_I [of lowerCase, OF assms]
  show "isHeaderRow lowerCase [dottedId, ''Date2'', ''Txn'']"
    and "isHeaderRow lowerCase [''1'', ''x'', dottedTransaction]"
    by (simp_all add: isHeaderRow_keywords)
qed

section \<open>The ingestion driver\<close>

text \<open>One call of \<^verbatim>\<open>Read\<close>, and one turn of the loop after it.\<close>

lemma csvRead_shorter:
  assumes "csvRead numLine lines = Some (r, numLine', rest)"
  shows "length rest < length lines"
  using assms
  by (induction numLine lines rule: csvRead.induct) (auto split: if_splits)

lemma csvReadAll_EOF:
  assumes "csvRead numLine lines = None"
  shows "csvReadAll numLine lines = []"
  using assms by (simp add: csvReadAll.simps)

lemma csvReadAll_step:
  assumes "csvRead numLine lines = Some (r, numLine', rest)"
  shows "csvReadAll numLine lines = r # csvReadAll numLine' rest"
  using assms by (simp add: csvReadAll.simps [of numLine lines])

lemma readLoop_EOF:
  assumes "csvRead numLine lines = None"
  shows "readLoop lowerCase cy acc numLine lines k txs = Inr txs"
  using assms by (simp add: readLoop.simps)

lemma readLoop_read_error:
  assumes "csvRead numLine lines = Some (Inl cause, numLine', rest)"
  shows "readLoop lowerCase cy acc numLine lines k txs = Inl (CsvReadFailed (k + 1) cause)"
  using assms by (simp add: readLoop.simps [of lowerCase cy acc numLine lines])

lemma readLoop_header:
  assumes "csvRead numLine lines = Some (Inr rec, numLine', rest)"
    and "k = 0" and "isHeaderRow lowerCase rec"
  shows "readLoop lowerCase cy acc numLine lines k txs =
     readLoop lowerCase cy acc numLine' rest 1 txs"
  using assms by (simp add: readLoop.simps [of lowerCase cy acc numLine lines])

lemma readLoop_parse_error:
  assumes "csvRead numLine lines = Some (Inr rec, numLine', rest)"
    and "\<not> (k = 0 \<and> isHeaderRow lowerCase rec)"
    and "parseTransaction cy rec acc = Inl cause"
  shows "readLoop lowerCase cy acc numLine lines k txs = Inl (RecordParseFailed (k + 1) cause)"
  using assms by (auto simp: readLoop.simps [of lowerCase cy acc numLine lines])

lemma readLoop_parsed:
  assumes "csvRead numLine lines = Some (Inr rec, numLine', rest)"
    and "\<not> (k = 0 \<and> isHeaderRow lowerCase rec)"
    and "parseTransaction cy rec acc = Inr t"
  shows "readLoop lowerCase cy acc numLine lines k txs =
     readLoop lowerCase cy acc numLine' rest (k + 1) (txs @ [t])"
  using assms by (auto simp: readLoop.simps [of lowerCase cy acc numLine lines])

text \<open>The loop on a file, line by line.\<close>

lemma readLoop_Nil: "readLoop lowerCase cy acc numLine [] k txs = Inr txs"
  by (simp add: readLoop_EOF)

lemma readLoop_EmptyLine:
  "readLoop lowerCase cy acc numLine (EmptyLine # lines) k txs =
     readLoop lowerCase cy acc (numLine + 1) lines k txs"
  by (simp add: readLoop.simps [of lowerCase cy acc numLine "EmptyLine # lines"]
      readLoop.simps [of lowerCase cy acc "Suc numLine" lines])

lemma readLoop_BadSyntax:
  "readLoop lowerCase cy acc numLine (BadSyntax # lines) k txs =
     Inl (CsvReadFailed (k + 1) (CsvSyntax (numLine + 1)))"
  by (simp add: readLoop_read_error [of numLine _ _ "numLine + 1" lines])

lemma readLoop_Fields:
  "readLoop lowerCase cy acc numLine (Fields fs # lines) k txs =
     (if length fs \<noteq> 3 then Inl (CsvReadFailed (k + 1) (CsvFieldCount (numLine + 1)))
      else if k = 0 \<and> isHeaderRow lowerCase fs
      then readLoop lowerCase cy acc (numLine + 1) lines 1 txs
      else
        (case parseTransaction cy fs acc of
           Inl err \<Rightarrow> Inl (RecordParseFailed (k + 1) err)
         | Inr t \<Rightarrow> readLoop lowerCase cy acc (numLine + 1) lines (k + 1) (txs @ [t])))"
  by (auto simp: readLoop.simps [of lowerCase cy acc numLine "Fields fs # lines"]
      split: sum.split)

text \<open>
  The rows of the file are the results of \<open>csvReadAll\<close>, counted from 0. When row \<open>i\<close> is
  the first that fails, by the CSV reader (a syntax error, or a number of fields other than
  3) or by the record parser on a record that is not the header skipped in the first place,
  the loop returns that failure, whatever it has collected before: the error carries the
  number \<open>i + 1\<close> of the row among the rows read, and the cause.
\<close>

lemma readLoop_first_failure:
  assumes "i < length (csvReadAll numLine lines)"
    and "\<forall>j<i. \<exists>rec. csvReadAll numLine lines ! j = Inr rec \<and>
           ((k + j = 0 \<and> isHeaderRow lowerCase rec) \<or> (\<exists>t. parseTransaction cy rec acc = Inr t))"
    and "(\<exists>cause. csvReadAll numLine lines ! i = Inl cause \<and> e = CsvReadFailed (k + i + 1) cause) \<or>
         (\<exists>rec cause. csvReadAll numLine lines ! i = Inr rec \<and>
            \<not> (k + i = 0 \<and> isHeaderRow lowerCase rec) \<and>
            parseTransaction cy rec acc = Inl cause \<and> e = RecordParseFailed (k + i + 1) cause)"
  shows "readLoop lowerCase cy acc numLine lines k txs = Inl e"
  using assms
proof (induction "length lines" arbitrary: numLine lines k txs i rule: less_induct)
  case less
  show ?case
  proof (cases "csvRead numLine lines")
    case None
    with less.prems(1) show ?thesis
      by (simp add: csvReadAll_EOF)
  next
    case (Some x)
    then obtain r numLine' rest where rd: "csvRead numLine lines = Some (r, numLine', rest)"
      by (cases x) auto
    note all = csvReadAll_step [OF rd]
    show ?thesis
    proof (cases i)
      case 0
      with less.prems(3) all
      consider cause where "r = Inl cause" "e = CsvReadFailed (k + 1) cause"
        | rec cause where "r = Inr rec" "\<not> (k = 0 \<and> isHeaderRow lowerCase rec)"
            "parseTransaction cy rec acc = Inl cause" "e = RecordParseFailed (k + 1) cause"
        by auto
      then show ?thesis
      proof cases
        case 1
        with rd show ?thesis
          by (simp add: readLoop_read_error)
      next
        case 2
        with rd show ?thesis
          by (simp add: readLoop_parse_error)
      qed
    next
      case (Suc i')
      from less.prems(2) Suc all obtain rec where r: "r = Inr rec"
        and ok: "(k = 0 \<and> isHeaderRow lowerCase rec) \<or> (\<exists>t. parseTransaction cy rec acc = Inr t)"
        by (auto dest: spec [of _ 0])
      from less.prems(1) Suc all have len: "i' < length (csvReadAll numLine' rest)"
        by simp
      have before: "\<forall>j<i'. \<exists>rec. csvReadAll numLine' rest ! j = Inr rec \<and>
           ((Suc k + j = 0 \<and> isHeaderRow lowerCase rec) \<or> (\<exists>t. parseTransaction cy rec acc = Inr t))"
      proof (intro allI impI)
        fix j
        assume "j < i'"
        with Suc have "Suc j < i"
          by simp
        with less.prems(2) have "\<exists>rec. csvReadAll numLine lines ! Suc j = Inr rec \<and>
           ((k + Suc j = 0 \<and> isHeaderRow lowerCase rec) \<or> (\<exists>t. parseTransaction cy rec acc = Inr t))"
          by blast
        then show "\<exists>rec. csvReadAll numLine' rest ! j = Inr rec \<and>
           ((Suc k + j = 0 \<and> isHeaderRow lowerCase rec) \<or> (\<exists>t. parseTransaction cy rec acc = Inr t))"
          by (simp add: all)
      qed
      from less.prems(3) Suc all
      have here: "(\<exists>cause. csvReadAll numLine' rest ! i' = Inl cause \<and>
             e = CsvReadFailed (Suc k + i' + 1) cause) \<or>
         (\<exists>rec cause. csvReadAll numLine' rest ! i' = Inr rec \<and>
            \<not> (Suc k + i' = 0 \<and> isHeaderRow lowerCase rec) \<and>
            parseTransaction cy rec acc = Inl cause \<and> e = RecordParseFailed (Suc k + i' + 1) cause)"
        by simp
      have ih: "readLoop lowerCase cy acc numLine' rest (Suc k) txs' = Inl e" for txs'
        using less.hyps [OF csvRead_shorter [OF rd] len before here] .
      from ok show ?thesis
      proof
        assume "k = 0 \<and> isHeaderRow lowerCase rec"
        with rd r ih [of txs] show ?thesis
          by (simp add: readLoop_header)
      next
        assume "\<exists>t. parseTransaction cy rec acc = Inr t"
        then obtain t where t: "parseTransaction cy rec acc = Inr t"
          by blast
        show ?thesis
        proof (cases "k = 0 \<and> isHeaderRow lowerCase rec")
          case True
          with rd r ih [of txs] show ?thesis
            by (simp add: readLoop_header)
        next
          case False
          with rd r t ih [of "txs @ [t]"] show ?thesis
            by (simp add: readLoop_parsed)
        qed
      qed
    qed
  qed
qed

text \<open>
  When the loop returns transactions, every row of the file has been read without error
  and is the header skipped in the first place or a record that parses: nothing else is
  skipped.
\<close>

lemma readLoop_Inr:
  assumes "readLoop lowerCase cy acc numLine lines k txs = Inr out"
  shows "\<forall>j<length (csvReadAll numLine lines). \<exists>rec. csvReadAll numLine lines ! j = Inr rec \<and>
           ((k + j = 0 \<and> isHeaderRow lowerCase rec) \<or> (\<exists>t. parseTransaction cy rec acc = Inr t))"
  using assms
proof (induction "length lines" arbitrary: numLine lines k txs rule: less_induct)
  case less
  show ?case
  proof (cases "csvRead numLine lines")
    case None
    then show ?thesis
      by (simp add: csvReadAll_EOF)
  next
    case (Some x)
    then obtain r numLine' rest where rd: "csvRead numLine lines = Some (r, numLine', rest)"
      by (cases x) auto
    note all = csvReadAll_step [OF rd]
    from rd less.prems obtain rec where r: "r = Inr rec"
      by (cases r) (simp_all add: readLoop_read_error)
    have "\<exists>txs'. readLoop lowerCase cy acc numLine' rest (Suc k) txs' = Inr out \<and>
            ((k = 0 \<and> isHeaderRow lowerCase rec) \<or> (\<exists>t. parseTransaction cy rec acc = Inr t))"
    proof (cases "k = 0 \<and> isHeaderRow lowerCase rec")
      case True
      with rd r less.prems show ?thesis
        by (auto simp: readLoop_header)
    next
      case False
      show ?thesis
      proof (cases "parseTransaction cy rec acc")
        case (Inl cause)
        with rd r False less.prems show ?thesis
          by (simp add: readLoop_parse_error)
      next
        case (Inr t)
        with rd r False less.prems show ?thesis
          by (auto simp: readLoop_parsed)
      qed
    qed
    then obtain txs' where run: "readLoop lowerCase cy acc numLine' rest (Suc k) txs' = Inr out"
      and ok: "(k = 0 \<and> isHeaderRow lowerCase rec) \<or> (\<exists>t. parseTransaction cy rec acc = Inr t)"
      by blast
    note ih = less.hyps [OF csvRead_shorter [OF rd] run]
    show ?thesis
    proof (intro allI impI)
      fix j
      assume j: "j < length (csvReadAll numLine lines)"
      show "\<exists>rec. csvReadAll numLine lines ! j = Inr rec \<and>
           ((k + j = 0 \<and> isHeaderRow lowerCase rec) \<or> (\<exists>t. parseTransaction cy rec acc = Inr t))"
      proof (cases j)
        case 0
        with r ok show ?thesis
          by (simp add: all)
      next
        case (Suc j')
        with j ih show ?thesis
          by (simp add: all)
      qed
    qed
  qed
qed

text \<open>The same of the whole ingestion.\<close>

lemma first_failing_row_aborts:
  assumes "i < length (csvReadAll 0 lines)"
    and "\<forall>j<i. \<exists>rec. csvReadAll 0 lines ! j = Inr rec \<and>
           ((j = 0 \<and> isHeaderRow lowerCase rec) \<or> (\<exists>t. parseTransaction cy rec acc = Inr t))"
  shows "csvReadAll 0 lines ! i = Inl cause \<Longrightarrow>
           ReadTransactions lowerCase cy lines acc = Inl (CsvReadFailed (i + 1) cause)"
    and "csvReadAll 0 lines ! i = Inr rec \<Longrightarrow> \<not> (i = 0 \<and> isHeaderRow lowerCase rec) \<Longrightarrow>
           parseTransaction cy rec acc = Inl cause \<Longrightarrow>
           ReadTransactions lowerCase cy lines acc = Inl (RecordParseFailed (i + 1) cause)"
proof -
  assume "csvReadAll 0 lines ! i = Inl cause"
  with readLoop_first_failure [of i 0 lines 0 lowerCase cy acc "CsvReadFailed (i + 1) cause" "[]"]
    assms
  show "ReadTransactions lowerCase cy lines acc = Inl (CsvReadFailed (i + 1) cause)"
    by (simp add: ReadTransactions_def)
next
  assume "csvReadAll 0 lines ! i = Inr rec" "\<not> (i = 0 \<and> isHeaderRow lowerCase rec)"
    "parseTransaction cy rec acc = Inl cause"
  with readLoop_first_failure [of i 0 lines 0 lowerCase cy acc "RecordParseFailed (i + 1) cause" "[]"]
    assms
  show "ReadTransactions lowerCase cy lines acc = Inl (RecordParseFailed (i + 1) cause)"
    by (simp add: ReadTransactions_def)
qed

lemma no_row_skipped:
  assumes "ReadTransactions lowerCase cy lines acc = Inr out"
  shows "\<forall>j<length (csvReadAll 0 lines). \<exists>rec. csvReadAll 0 lines ! j = Inr rec \<and>
           ((j = 0 \<and> isHeaderRow lowerCase rec) \<or> (\<exists>t. parseTransaction cy rec acc = Inr t))"
proof -
  from assms have "readLoop lowerCase cy acc 0 lines 0 [] = Inr out"
    by (auto simp: ReadTransactions_def split: sum.splits if_splits)
  from readLoop_Inr [OF this] show ?thesis
    by simp
qed

section \<open>The date parser\<close>

lemma layoutChunks_formats:
  "layoutChunks ''1/2'' = [stdNumMonth, literal CHR ''/'', stdDay]"
  "layoutChunks ''1/02'' = [stdNumMonth, literal CHR ''/'', stdZeroDay]"
  "layoutChunks ''01/2'' = [stdZeroMonth, literal CHR ''/'', stdDay]"
  "layoutChunks ''01/02'' = [stdZeroMonth, literal CHR ''/'', stdZeroDay]"
  by code_simp+

lemma digitVal_range: "isDigit c \<Longrightarrow> 0 \<le> digitVal c \<and> digitVal c \<le> 9"
proof -
  assume d: "isDigit c"
  have "(of_char c :: int) = int (of_char c)"
    by (simp add: of_nat_of_char)
  with d show ?thesis
    by (simp add: isDigit_def digitVal_def)
qed

lemma getnum_fixed: "getnum v True = Some x \<Longrightarrow> getnum v False = Some x"
  by (auto simp: getnum_def split: if_splits)

lemma getnum_nonneg: "getnum v b = Some (n, rest) \<Longrightarrow> 0 \<le> n"
proof -
  assume g: "getnum v b = Some (n, rest)"
  then have d0: "isDigit (v ! 0)"
    by (auto simp: getnum_def isDigitAt_def split: if_splits)
  show ?thesis
  proof (cases "isDigitAt v 1")
    case True
    then have "isDigit (v ! 1)"
      by (simp add: isDigitAt_def)
    with g True d0 digitVal_range [of "v ! 0"] digitVal_range [of "v ! 1"] show ?thesis
      by (auto simp: getnum_def split: if_splits)
  next
    case False
    with g d0 digitVal_range [of "v ! 0"] show ?thesis
      by (auto simp: getnum_def split: if_splits)
  qed
qed

lemma parse_month_day:
  assumes "parseChunks [mc, literal CHR ''/'', dc] v \<lparr>pyear = 0, pmonth = - 1, pday = - 1\<rparr> = Some st"
    and "mc = stdNumMonth \<or> mc = stdZeroMonth" and "dc = stdDay \<or> dc = stdZeroDay"
  shows "parseChunks [stdNumMonth, literal CHR ''/'', stdDay] v
           \<lparr>pyear = 0, pmonth = - 1, pday = - 1\<rparr> = Some st \<and>
         pyear st = 0 \<and> 1 \<le> pmonth st \<and> pmonth st \<le> 12 \<and> 0 \<le> pday st"
proof -
  from assms obtain m r1 d r2 where
    gm: "getnum v False = Some (m, r1)" and m: "1 \<le> m" "m \<le> 12" and
    sl: "r1 \<noteq> []" "hd r1 = CHR ''/''" and
    gd: "getnum (tl r1) False = Some (d, r2)" and r2: "r2 = []" and
    st: "st = \<lparr>pyear = 0, pmonth = m, pday = d\<rparr>"
    by (auto split: option.splits if_splits dest!: getnum_fixed)
  from getnum_nonneg [OF gd] have "0 \<le> d" .
  with gm m sl gd r2 st show ?thesis
    by simp
qed

lemma rollDays_valid: "d \<le> daysIn m y \<Longrightarrow> rollDays y m d = \<lparr>year = y, month = m, day = d\<rparr>"
  by (subst rollDays.simps) simp

lemma time_Date_valid:
  assumes "1 \<le> m" "m \<le> 12" "d \<le> daysIn (nat m) y"
  shows "time_Date y m d = \<lparr>year = y, month = nat m, day = d\<rparr>"
proof -
  have a: "y + (m - 1) div 12 = y"
    using assms(1,2) by simp
  have b: "nat ((m - 1) mod 12) + 1 = nat m"
    using assms(1,2) by simp
  show ?thesis
    unfolding time_Date_def a b using rollDays_valid [OF assms(3)] .
qed

lemma isLeap_0: "isLeap 0"
  by (simp add: isLeap_def)

lemma daysIn_other_year: "m \<noteq> 2 \<Longrightarrow> daysIn m y = daysIn m 0"
  by (simp add: daysIn_def)

lemma daysIn_february: "daysIn 2 y = (if isLeap y then 29 else 28)"
  by (simp add: daysIn_def monthDays_def)

lemma daysIn_march: "daysIn 3 y = 31"
  by (simp add: daysIn_def monthDays_def)

lemma rollDays_feb29: "\<not> isLeap y \<Longrightarrow> rollDays y 2 29 = \<lparr>year = y, month = 3, day = 1\<rparr>"
  by (subst rollDays.simps) (simp add: daysIn_february rollDays_valid daysIn_march)

text \<open>What a yearless layout gives, and what adding the current year makes of it.\<close>

lemma yearless_parse:
  assumes "time_Parse f s = Some t" and "f \<in> set (take 4 formats)"
  shows "time_Parse ''1/2'' s = Some t \<and> year t = 0 \<and> 1 \<le> month t \<and> month t \<le> 12 \<and>
         1 \<le> day t \<and> day t \<le> daysIn (month t) 0"
proof -
  from assms(2) obtain mc dc where
    lc: "layoutChunks f = [mc, literal CHR ''/'', dc]" and
    mc: "mc = stdNumMonth \<or> mc = stdZeroMonth" and dc: "dc = stdDay \<or> dc = stdZeroDay"
    by (auto simp: formats_def layoutChunks_formats)
  from assms(1) obtain st where
    st: "parseChunks [mc, literal CHR ''/'', dc] s \<lparr>pyear = 0, pmonth = - 1, pday = - 1\<rparr> = Some st"
    unfolding time_Parse_def lc by (auto split: option.splits)
  note p = parse_month_day [OF st mc dc]
  from p have m: "(if pmonth st < 0 then 1 else pmonth st) = pmonth st"
    and d: "(if pday st < 0 then 1 else pday st) = pday st"
    and y: "pyear st = 0"
    by auto
  from assms(1) have valid: "1 \<le> pday st" "pday st \<le> int (daysIn (nat (pmonth st)) 0)"
    and t: "t = time_Date 0 (pmonth st) (nat (pday st))"
    unfolding time_Parse_def lc st by (auto simp: Let_def m d y split: if_splits)
  have t': "t = \<lparr>year = 0, month = nat (pmonth st), day = nat (pday st)\<rparr>"
    unfolding t using p valid by (intro time_Date_valid) auto
  have first: "time_Parse ''1/2'' s = Some t"
    using p valid
    by (simp add: time_Parse_def layoutChunks_formats Let_def m d y t)
  show ?thesis
    using first t' p valid by auto
qed

lemma AddDate_year:
  assumes "year t = 0" "1 \<le> month t" "month t \<le> 12" "day t \<le> daysIn (month t) 0"
  shows "AddDate t cy 0 0 =
           (if day t \<le> daysIn (month t) cy then \<lparr>year = cy, month = month t, day = day t\<rparr>
            else \<lparr>year = cy, month = 3, day = 1\<rparr>) \<and>
         (day t \<le> daysIn (month t) cy \<or> (month t = 2 \<and> day t = 29 \<and> \<not> isLeap cy))"
proof -
  have a: "0 + cy + (int (month t) + 0 - 1) div 12 = cy"
    using assms(2,3) by simp
  have b: "nat ((int (month t) + 0 - 1) mod 12) + 1 = month t"
    using assms(2,3) by simp
  have c: "day t + 0 = day t"
    by simp
  have eq: "AddDate t cy 0 0 = rollDays cy (month t) (day t)"
    unfolding AddDate_def time_Date_def assms(1) a b c ..
  show ?thesis
  proof (cases "day t \<le> daysIn (month t) cy")
    case True
    then show ?thesis
      by (simp add: eq rollDays_valid)
  next
    case False
    with assms(4) have m: "month t = 2"
      using daysIn_other_year [of "month t" cy] by auto
    with False assms(4) have l: "\<not> isLeap cy" and d: "day t = 29"
      by (auto simp: daysIn_february isLeap_0 split: if_splits)
    show ?thesis
      using False by (simp add: eq m d l rollDays_feb29)
  qed
qed

lemma parseDateLoop_first:
  assumes "i < length fs" and "time_Parse (fs ! i) s = Some t"
    and "\<forall>j<i. time_Parse (fs ! j) s = None"
  shows "parseDateLoop cy fs s = Inr (if year t = 0 then AddDate t cy 0 0 else t)"
  using assms
proof (induction fs arbitrary: i)
  case Nil
  then show ?case by simp
next
  case (Cons f fs)
  show ?case
  proof (cases i)
    case 0
    with Cons.prems(2) show ?thesis by simp
  next
    case (Suc k)
    with Cons.prems(3) have f: "time_Parse f s = None"
      by force
    have "parseDateLoop cy fs s = Inr (if year t = 0 then AddDate t cy 0 0 else t)"
    proof (rule Cons.IH)
      show "k < length fs"
        using Cons.prems(1) Suc by simp
      show "time_Parse (fs ! k) s = Some t"
        using Cons.prems(2) Suc by simp
      show "\<forall>j<k. time_Parse (fs ! j) s = None"
      proof (intro allI impI)
        fix j
        assume "j < k"
        then have "Suc j < i"
          using Suc by simp
        with Cons.prems(3) have "time_Parse ((f # fs) ! Suc j) s = None"
          by blast
        then show "time_Parse (fs ! j) s = None"
          by simp
      qed
    qed
    with f show ?thesis by simp
  qed
qed

lemma parseDateLoop_none:
  "(parseDateLoop cy fs s = Inl (InvalidDate s)) = (\<forall>f\<in>set fs. time_Parse f s = None)"
  by (induction fs) (auto split: option.splits)

lemma parseDateLoop_error: "parseDateLoop cy fs s = Inl e \<Longrightarrow> e = InvalidDate s"
  by (induction fs) (auto split: option.splits)

lemma parse_feb29: "time_Parse ''1/2'' ''2/29'' = Some \<lparr>year = 0, month = 2, day = 29\<rparr>"
  by code_simp

lemma parse_jul15: "time_Parse ''1/2'' ''7/15'' = Some \<lparr>year = 0, month = 7, day = 15\<rparr>"
  by code_simp

lemma parse_long:
  "time_Parse ''1/2'' ''07/15/2023'' = None"
  "time_Parse ''1/02'' ''07/15/2023'' = None"
  "time_Parse ''01/2'' ''07/15/2023'' = None"
  "time_Parse ''01/02'' ''07/15/2023'' = None"
  "time_Parse ''1/2/2006'' ''07/15/2023'' = Some \<lparr>year = 2023, month = 7, day = 15\<rparr>"
  by code_simp+

lemma yearless_formats: "take 4 formats = [''1/2'', ''1/02'', ''01/2'', ''01/02'']"
  by (simp add: formats_def)

lemma first_format: "formats ! 0 = ''1/2''" "0 < length formats"
  by (simp_all add: formats_def)

lemma parseDate_yearless:
  assumes "f \<in> set (take 4 formats)" and "time_Parse f s = Some t"
  shows "year t = 0 \<and>
         parseDate cy s =
           Inr (if day t \<le> daysIn (month t) cy
                then \<lparr>year = cy, month = month t, day = day t\<rparr>
                else \<lparr>year = cy, month = 3, day = 1\<rparr>) \<and>
         (day t \<le> daysIn (month t) cy \<or> (month t = 2 \<and> day t = 29 \<and> \<not> isLeap cy))"
proof -
  note y = yearless_parse [OF assms(2,1)]
  from y have p: "time_Parse (formats ! 0) s = Some t"
    by (simp add: first_format)
  have "parseDate cy s = Inr (if year t = 0 then AddDate t cy 0 0 else t)"
    unfolding parseDate_def using parseDateLoop_first [OF first_format(2) p] by simp
  moreover from y have "year t = 0" "1 \<le> month t" "month t \<le> 12" "day t \<le> daysIn (month t) 0"
    by auto
  ultimately show ?thesis
    using AddDate_year [of t cy] by simp
qed

text \<open>
  Claim C7, as the code has it. The ten layouts are tried in their order and the first that
  matches decides; a string that matches none fails with InvalidDate. A string matched by
  one of the four yearless layouts has its month and day read in year 0 and the current year
  added: the result is that month and day of the current year whenever the month has that
  day in the current year, that is always but for February 29 when the current year is not
  a leap year, where the result is March 1. So \<open>7/15\<close> gives July 15 of the current year, and
  \<open>07/15/2023\<close> gives July 15 of 2023.
\<close>

theorem parseDate_layouts:
  "(i < length formats \<and> time_Parse (formats ! i) s = Some t \<and>
      (\<forall>j<i. time_Parse (formats ! j) s = None) \<longrightarrow>
        parseDate cy s = Inr (if year t = 0 then AddDate t cy 0 0 else t)) \<and>
   (parseDate cy s = Inl (InvalidDate s)) = (\<forall>f\<in>set formats. time_Parse f s = None) \<and>
   take 4 formats = [''1/2'', ''1/02'', ''01/2'', ''01/02''] \<and>
   (f \<in> set (take 4 formats) \<and> time_Parse f s = Some t \<longrightarrow>
      year t = 0 \<and>
      parseDate cy s =
        Inr (if day t \<le> daysIn (month t) cy
             then \<lparr>year = cy, month = month t, day = day t\<rparr>
             else \<lparr>year = cy, month = 3, day = 1\<rparr>) \<and>
      (day t \<le> daysIn (month t) cy \<or> (month t = 2 \<and> day t = 29 \<and> \<not> isLeap cy))) \<and>
   parseDate cy ''7/15'' = Inr \<lparr>year = cy, month = 7, day = 15\<rparr> \<and>
   parseDate cy ''07/15/2023'' = Inr \<lparr>year = 2023, month = 7, day = 15\<rparr>"
proof (intro conjI impI)
  assume "i < length formats \<and> time_Parse (formats ! i) s = Some t \<and>
      (\<forall>j<i. time_Parse (formats ! j) s = None)"
  then show "parseDate cy s = Inr (if year t = 0 then AddDate t cy 0 0 else t)"
    unfolding parseDate_def using parseDateLoop_first [of i formats s t cy] by blast
next
  show "(parseDate cy s = Inl (InvalidDate s)) = (\<forall>f\<in>set formats. time_Parse f s = None)"
    unfolding parseDate_def by (rule parseDateLoop_none)
next
  show "take 4 formats = [''1/2'', ''1/02'', ''01/2'', ''01/02'']"
    by (rule yearless_formats)
next
  assume h: "f \<in> set (take 4 formats) \<and> time_Parse f s = Some t"
  then have a: "f \<in> set (take 4 formats)" and b: "time_Parse f s = Some t"
    by blast+
  from parseDate_yearless [OF a b, of cy]
  show "year t = 0"
    and "parseDate cy s =
        Inr (if day t \<le> daysIn (month t) cy
             then \<lparr>year = cy, month = month t, day = day t\<rparr>
             else \<lparr>year = cy, month = 3, day = 1\<rparr>)"
    and "day t \<le> daysIn (month t) cy \<or> (month t = 2 \<and> day t = 29 \<and> \<not> isLeap cy)"
    by blast+
next
  have a: "''1/2'' \<in> set (take 4 formats)"
    by (simp add: yearless_formats)
  have "daysIn 7 cy = 31"
    by (simp add: daysIn_def monthDays_def)
  with parseDate_yearless [OF a parse_jul15, of cy]
  show "parseDate cy ''7/15'' = Inr \<lparr>year = cy, month = 7, day = 15\<rparr>"
    by simp
next
  show "parseDate cy ''07/15/2023'' = Inr \<lparr>year = 2023, month = 7, day = 15\<rparr>"
    by (simp add: parseDate_def formats_def parse_long)
qed

text \<open>The theorem at \<open>2/29\<close> in the leap year 2024.\<close>

theorem parseDate_layouts_witness:
  "''1/2'' \<in> set (take 4 formats) \<and>
   time_Parse ''1/2'' ''2/29'' = Some \<lparr>year = 0, month = 2, day = 29\<rparr> \<and>
   parseDate 2024 ''2/29'' = Inr \<lparr>year = 2024, month = 2, day = 29\<rparr> \<and>
   time_Parse (formats ! 0) ''2/29'' = Some \<lparr>year = 0, month = 2, day = 29\<rparr>"
proof -
  have a: "''1/2'' \<in> set (take 4 formats)"
    by (simp add: yearless_formats)
  have d: "daysIn 2 2024 = 29"
    by (simp add: daysIn_february isLeap_def)
  from parseDate_layouts [of 0 "''2/29''" "\<lparr>year = 0, month = 2, day = 29\<rparr>" 2024 "''1/2''"]
    a parse_feb29 d
  show ?thesis
    by (simp add: first_format)
qed

text \<open>
  Claim C7 as it is stated fails: \<open>2/29\<close> is matched by the yearless layout M/D as
  February 29, and in 2025 the parser returns March 1, not February 29 of the current year.
\<close>

theorem feb29_counterexample:
  "''1/2'' \<in> set (take 4 formats) \<and>
   time_Parse ''1/2'' ''2/29'' = Some \<lparr>year = 0, month = 2, day = 29\<rparr> \<and>
   parseDate 2025 ''2/29'' = Inr \<lparr>year = 2025, month = 3, day = 1\<rparr>"
proof -
  have "parseDate 2025 ''2/29'' = Inr \<lparr>year = 2025, month = 3, day = 1\<rparr>"
    by code_simp
  then show ?thesis
    using parse_feb29 by (simp add: yearless_formats)
qed

text \<open>
  Claim C10. The yearless layout parses \<open>2/29\<close> as February 29 of year 0, a leap year; when
  the current year is not a leap year, adding it gives March 1 of the current year, and the
  parser does not fail with InvalidDate.
\<close>

theorem feb29_rolls_to_march:
  "isLeap 0 \<and>
   time_Parse ''1/2'' ''2/29'' = Some \<lparr>year = 0, month = 2, day = 29\<rparr> \<and>
   (\<not> isLeap cy \<longrightarrow>
      parseDate cy ''2/29'' = Inr \<lparr>year = cy, month = 3, day = 1\<rparr> \<and>
      parseDate cy ''2/29'' \<noteq> Inl (InvalidDate ''2/29''))"
proof (intro conjI impI)
  show "isLeap 0"
    by (rule isLeap_0)
  show "time_Parse ''1/2'' ''2/29'' = Some \<lparr>year = 0, month = 2, day = 29\<rparr>"
    by (rule parse_feb29)
next
  assume l: "\<not> isLeap cy"
  have a: "''1/2'' \<in> set (take 4 formats)"
    by (simp add: yearless_formats)
  from parseDate_yearless [OF a parse_feb29, of cy] l
  show r: "parseDate cy ''2/29'' = Inr \<lparr>year = cy, month = 3, day = 1\<rparr>"
    by (simp add: daysIn_february)
  then show "parseDate cy ''2/29'' \<noteq> Inl (InvalidDate ''2/29'')"
    by simp
qed

text \<open>The theorem in 2023, which is not a leap year.\<close>

theorem feb29_rolls_to_march_witness:
  "\<not> isLeap 2023 \<and> parseDate 2023 ''2/29'' = Inr \<lparr>year = 2023, month = 3, day = 1\<rparr>"
proof -
  have l: "\<not> isLeap 2023"
    by (simp add: isLeap_def)
  with feb29_rolls_to_march [of 2023] show ?thesis
    by simp
qed

section \<open>Division of decimals\<close>

lemma sdiv_smod_pos:
  fixes a b :: int
  assumes "0 < b"
  shows "a = (a sdiv b) * b + a smod b" and "\<bar>a smod b\<bar> < b"
    and "0 \<le> a \<Longrightarrow> 0 \<le> a smod b" and "a < 0 \<Longrightarrow> a smod b \<le> 0"
proof -
  show "a = (a sdiv b) * b + a smod b"
    by (simp add: sdiv_mult_smod_eq)
  have m: "0 \<le> \<bar>a\<bar> mod b" "\<bar>a\<bar> mod b < b"
    using assms by simp_all
  show "\<bar>a smod b\<bar> < b"
    using m assms by (simp add: signed_modulo_int_def abs_mult abs_sgn_eq)
  show "0 \<le> a \<Longrightarrow> 0 \<le> a smod b"
    using m assms by (simp add: signed_modulo_int_def sgn_if)
  show "a < 0 \<Longrightarrow> a smod b \<le> 0"
    using m assms by (simp add: signed_modulo_int_def sgn_if)
qed

lemma roundedQuotient_half:
  fixes a b :: int
  assumes "0 < b"
  shows "\<bar>rat_of_int (roundedQuotient a b) - rat_of_int a / rat_of_int b\<bar> \<le> 1 / 2"
proof -
  define q where "q = a sdiv b"
  define r where "r = a smod b"
  note f = sdiv_smod_pos [OF assms, of a, folded q_def r_def]
  have b: "(0::rat) < of_int b"
    using assms by simp
  have "rat_of_int a = of_int q * of_int b + of_int r"
    using arg_cong [OF f(1), of rat_of_int] by simp
  then have quot: "rat_of_int a / of_int b = of_int q + of_int r / of_int b"
    using b by (simp add: field_simps)
  have "rat_of_int \<bar>r\<bar> < of_int b"
    using f(2) by (simp only: of_int_less_iff)
  then have rb: "\<bar>rat_of_int r\<bar> < of_int b"
    by simp
  show ?thesis
  proof (cases "\<bar>r\<bar> * 2 < b")
    case True
    then have "rat_of_int (\<bar>r\<bar> * 2) < of_int b"
      by (simp only: of_int_less_iff)
    then have "\<bar>rat_of_int r\<bar> * 2 < of_int b"
      by simp
    then have "\<bar>rat_of_int r / of_int b\<bar> \<le> 1 / 2"
      using b by (simp add: field_simps abs_if split: if_splits)
    with True show ?thesis
      by (simp add: roundedQuotient_def q_def [symmetric] r_def [symmetric] quot)
  next
    case False
    then have "b \<le> \<bar>r\<bar> * 2"
      by simp
    then have "rat_of_int b \<le> of_int (\<bar>r\<bar> * 2)"
      by (simp only: of_int_le_iff)
    then have h: "of_int b \<le> \<bar>rat_of_int r\<bar> * 2"
      by simp
    show ?thesis
    proof (cases "a < 0")
      case True
      with f(4) have "r \<le> 0" by simp
      then have "rat_of_int r \<le> 0" by simp
      with h rb b have "\<bar>- 1 - rat_of_int r / of_int b\<bar> \<le> 1 / 2"
        by (simp add: field_simps abs_if split: if_splits)
      with True False show ?thesis
        by (simp add: roundedQuotient_def q_def [symmetric] r_def [symmetric] quot)
    next
      case nn: False
      with f(3) have "0 \<le> r" by simp
      then have "0 \<le> rat_of_int r" by simp
      with h rb b have "\<bar>1 - rat_of_int r / of_int b\<bar> \<le> 1 / 2"
        by (simp add: field_simps abs_if split: if_splits)
      with nn False show ?thesis
        by (simp add: roundedQuotient_def q_def [symmetric] r_def [symmetric] quot)
    qed
  qed
qed

lemma same_exp_pair: "dexp a = dexp b \<Longrightarrow> RescalePair a b = (a, b)"
  by (simp add: RescalePair_def)

lemma DivRound_rounded:
  assumes n: "0 < n" and e: "e = dexp d + p" and range: "- 2147483648 \<le> e" "e \<le> 2147483647"
    and aa: "aa = (if e < 0 then dvalue d else dvalue d * 10 ^ nat e)"
    and bb: "bb = (if e < 0 then n * 10 ^ nat (- e) else n)"
  shows "DivRound d (NewFromInt n) p = Inr \<lparr>dvalue = roundedQuotient aa bb, dexp = - p\<rparr>"
proof -
  have bbpos: "0 < bb"
    using n bb by simp
  have sign: "(sgn (dvalue d) * sgn n < 0) = (aa < 0)"
    using n aa by (auto simp: sgn_if mult_less_0_iff zero_less_mult_iff)
  define r where "r = aa smod bb"
  have cmp: "(Cmp \<lparr>dvalue = \<bar>r\<bar> * 2, dexp = (if e < 0 then dexp d else - p + 0) + p\<rparr> (Abs (NewFromInt n)) < 0)
      = (\<bar>r\<bar> * 2 < bb)"
  proof (cases "e < 0")
    case True
    define k where "k = nat (- e)"
    have pe: "(10::rat) powi e = 1 / 10 ^ k"
      using True by (simp add: k_def power_int_def field_simps)
    have "(dec_val \<lparr>dvalue = \<bar>r\<bar> * 2, dexp = e\<rparr> < dec_val (Abs (NewFromInt n)))
        = (rat_of_int (\<bar>r\<bar> * 2) / 10 ^ k < rat_of_int n)"
      using n by (simp add: dec_val_def Abs_def NewFromInt_def pe)
    also have "\<dots> = (rat_of_int (\<bar>r\<bar> * 2) < rat_of_int (n * 10 ^ k))"
      by (simp add: field_simps)
    also have "\<dots> = (\<bar>r\<bar> * 2 < n * 10 ^ k)"
      by (rule of_int_less_iff)
    finally show ?thesis
      using True e by (auto simp: Cmp_val bb k_def split: if_splits)
  next
    case False
    have "(dec_val \<lparr>dvalue = \<bar>r\<bar> * 2, dexp = 0\<rparr> < dec_val (Abs (NewFromInt n)))
        = (rat_of_int (\<bar>r\<bar> * 2) < rat_of_int n)"
      using n by (simp add: dec_val_def Abs_def NewFromInt_def)
    also have "\<dots> = (\<bar>r\<bar> * 2 < n)"
      by (rule of_int_less_iff)
    finally show ?thesis
      using False by (auto simp: Cmp_val bb split: if_splits)
  qed
  have q: "QuoRem d (NewFromInt n) p =
      Inr (\<lparr>dvalue = aa sdiv bb, dexp = - p\<rparr>,
           \<lparr>dvalue = r, dexp = (if e < 0 then dexp d else - p + 0)\<rparr>)"
    using n range
    by (simp add: QuoRem_def NewFromInt_def Let_def e [symmetric] aa bb r_def)
  show ?thesis
    unfolding DivRound_def q
    using cmp sign n
    by (simp add: Let_def roundedQuotient_def r_def [symmetric] NewFromInt_def New_def
        Add_def Sub_def same_exp_pair)
qed

lemma scaled_quotient:
  assumes n: "0 < n" and e: "e = dexp d + 16"
    and aa: "aa = (if e < 0 then dvalue d else dvalue d * 10 ^ nat e)"
    and bb: "bb = (if e < 0 then n * 10 ^ nat (- e) else n)"
  shows "rat_of_int aa / rat_of_int bb = dec_val d * 10 ^ 16 / rat_of_int n"
proof (cases "e < 0")
  case True
  define k where "k = nat (- e)"
  have "dexp d = - int (k + 16)"
    using True e by (simp add: k_def)
  then have "(10::rat) powi dexp d = 1 / 10 ^ (k + 16)"
    by (simp add: power_int_def field_simps)
  then have "dec_val d * 10 ^ 16 = rat_of_int (dvalue d) / 10 ^ k"
    by (simp add: dec_val_def power_add)
  then show ?thesis
    using True n by (simp add: aa bb k_def [symmetric] field_simps)
next
  case False
  define k where "k = nat e"
  have "int k = dexp d + 16"
    using False e by (simp add: k_def)
  have "(10::rat) powi (dexp d + 16) = 10 powi dexp d * 10 powi 16"
    by (rule power_int_add) simp
  then have "(10::rat) ^ k = 10 powi dexp d * 10 ^ 16"
    using \<open>int k = dexp d + 16\<close> by (metis power_int_of_nat of_nat_numeral)
  then have "dec_val d * 10 ^ 16 = rat_of_int (dvalue d) * 10 ^ k"
    by (simp add: dec_val_def)
  then show ?thesis
    using False n by (simp add: aa bb k_def [symmetric])
qed

lemma Div_accuracy:
  assumes n: "0 < n" and lo: "- 2147483648 \<le> dexp d" and hi: "dexp d \<le> 1"
  shows "\<exists>q. Div d (NewFromInt n) = Inr q \<and> dexp q = - 16 \<and>
             \<bar>dec_val q - dec_val d / rat_of_int n\<bar> \<le> 5 / 10 ^ 17"
proof -
  define e where "e = dexp d + 16"
  define aa where "aa = (if e < 0 then dvalue d else dvalue d * 10 ^ nat e)"
  define bb where "bb = (if e < 0 then n * 10 ^ nat (- e) else n)"
  define v where "v = roundedQuotient aa bb"
  have range: "- 2147483648 \<le> e" "e \<le> 2147483647"
    using lo hi by (simp_all add: e_def)
  have d: "Div d (NewFromInt n) = Inr \<lparr>dvalue = v, dexp = - 16\<rparr>"
    unfolding Div_def DivisionPrecision_def v_def
    by (rule DivRound_rounded [OF n e_def range aa_def bb_def])
  have bbpos: "0 < bb"
    using n by (simp add: bb_def)
  have half: "\<bar>rat_of_int v - rat_of_int aa / rat_of_int bb\<bar> \<le> 1 / 2"
    unfolding v_def by (rule roundedQuotient_half [OF bbpos])
  have sq: "rat_of_int aa / rat_of_int bb = dec_val d * 10 ^ 16 / rat_of_int n"
    by (rule scaled_quotient [OF n e_def aa_def bb_def])
  have val: "dec_val \<lparr>dvalue = v, dexp = - 16\<rparr> = rat_of_int v / 10 ^ 16"
    by (simp add: dec_val_def power_int_def field_simps)
  have "dec_val \<lparr>dvalue = v, dexp = - 16\<rparr> - dec_val d / rat_of_int n =
        (rat_of_int v - rat_of_int aa / rat_of_int bb) / 10 ^ 16"
    unfolding val sq by (simp add: field_simps)
  then have "\<bar>dec_val \<lparr>dvalue = v, dexp = - 16\<rparr> - dec_val d / rat_of_int n\<bar> =
        \<bar>(rat_of_int v - rat_of_int aa / rat_of_int bb) / 10 ^ 16\<bar>"
    by (simp only:)
  also have "\<dots> = \<bar>rat_of_int v - rat_of_int aa / rat_of_int bb\<bar> / 10 ^ 16"
    by (simp add: abs_divide)
  also have "\<dots> \<le> (1 / 2) / 10 ^ 16"
    using half by (simp add: divide_right_mono)
  finally have "\<bar>dec_val \<lparr>dvalue = v, dexp = - 16\<rparr> - dec_val d / rat_of_int n\<bar> \<le> 5 / 10 ^ 17"
    by simp
  with d show ?thesis
    by simp
qed

section \<open>The monthly groups\<close>

lemma lookupGroup_step:
  "lookupGroup (groupStep m tx) k =
     lookupGroup m k @ (if Format_January (Date tx) = k then [tx] else [])"
  by (simp add: groupStep_def lookupGroup_def Let_def update_conv')

lemma keys_step:
  "fst ` set (groupStep m tx) = insert (Format_January (Date tx)) (fst ` set m)"
  by (simp add: groupStep_def Let_def dom_update)

lemma distinct_step: "distinct (map fst m) \<Longrightarrow> distinct (map fst (groupStep m tx))"
  by (simp add: groupStep_def Let_def distinct_update)

lemma group_fold:
  "lookupGroup (foldl groupStep m txs) k =
     lookupGroup m k @ filter (\<lambda>t. Format_January (Date t) = k) txs"
  by (induction txs arbitrary: m) (simp_all add: lookupGroup_step)

lemma keys_fold:
  "fst ` set (foldl groupStep m txs) = fst ` set m \<union> (\<lambda>t. Format_January (Date t)) ` set txs"
  by (induction txs arbitrary: m) (auto simp: keys_step)

lemma distinct_fold: "distinct (map fst m) \<Longrightarrow> distinct (map fst (foldl groupStep m txs))"
  by (induction txs arbitrary: m) (simp_all add: distinct_step)

text \<open>The groups of a collection: one for each month name, holding the transactions of that name in their order.\<close>

lemma groups_are_filters:
  "distinct (map fst (groupTransactionsByMonth txs)) \<and>
   fst ` set (groupTransactionsByMonth txs) = (\<lambda>t. Format_January (Date t)) ` set txs \<and>
   (\<forall>(k, g) \<in> set (groupTransactionsByMonth txs).
       g = filter (\<lambda>t. Format_January (Date t) = k) txs \<and> g \<noteq> [])"
proof -
  let ?m = "groupTransactionsByMonth txs"
  have d: "distinct (map fst ?m)"
    unfolding groupTransactionsByMonth_def by (rule distinct_fold) simp
  have k: "fst ` set ?m = (\<lambda>t. Format_January (Date t)) ` set txs"
    unfolding groupTransactionsByMonth_def by (simp add: keys_fold)
  have "g = filter (\<lambda>t. Format_January (Date t) = k) txs \<and> g \<noteq> []" if "(k, g) \<in> set ?m" for k g
  proof -
    from that d have "map_of ?m k = Some g"
      by simp
    then have "lookupGroup ?m k = g"
      by (simp add: lookupGroup_def)
    then have g: "g = filter (\<lambda>t. Format_January (Date t) = k) txs"
      unfolding groupTransactionsByMonth_def group_fold by (simp add: lookupGroup_def)
    from that have "k \<in> fst ` set ?m"
      by force
    with k obtain t where "t \<in> set txs" "Format_January (Date t) = k"
      by auto
    then have "filter (\<lambda>t. Format_January (Date t) = k) txs \<noteq> []"
      by (auto simp: filter_empty_conv)
    with g show ?thesis
      by simp
  qed
  with d k show ?thesis
    by auto
qed

lemma group_of_transaction:
  assumes "t \<in> set txs"
  shows "map_of (groupTransactionsByMonth txs) (Format_January (Date t)) =
           Some (filter (\<lambda>u. Format_January (Date u) = Format_January (Date t)) txs)"
proof -
  let ?m = "groupTransactionsByMonth txs"
  let ?k = "Format_January (Date t)"
  from assms groups_are_filters [of txs] have "?k \<in> fst ` set ?m"
    by auto
  then obtain g where g: "(?k, g) \<in> set ?m"
    by force
  with groups_are_filters [of txs] have "g = filter (\<lambda>u. Format_January (Date u) = ?k) txs"
    by blast
  moreover from g groups_are_filters [of txs] have "map_of ?m ?k = Some g"
    by simp
  ultimately show ?thesis
    by simp
qed

section \<open>The monthly summaries\<close>

lemma dec_val_Zero: "dec_val Zero = 0" "dexp Zero = 1"
  by (simp_all add: dec_val_def Zero_def)

text \<open>The loop that sums and counts the credits and the debits of a group.\<close>

lemma tally_exp_upper:
  "foldl tally (c, d, cc, dc) g = (c', d', cc', dc') \<Longrightarrow>
     dexp c' \<le> dexp c \<and> dexp d' \<le> dexp d \<and> cc \<le> cc' \<and> dc \<le> dc'"
proof (induction g arbitrary: c d cc dc)
  case Nil
  then show ?case by simp
next
  case (Cons t g)
  obtain c1 d1 cc1 dc1 where s: "tally (c, d, cc, dc) t = (c1, d1, cc1, dc1)"
    by (cases "tally (c, d, cc, dc) t")
  then have "dexp c1 \<le> dexp c \<and> dexp d1 \<le> dexp d \<and> cc \<le> cc1 \<and> dc \<le> dc1"
    by (auto simp: tally_def dexp_Add split: if_splits)
  moreover from Cons.prems s have "foldl tally (c1, d1, cc1, dc1) g = (c', d', cc', dc')"
    by simp
  from Cons.IH [OF this] have "dexp c' \<le> dexp c1 \<and> dexp d' \<le> dexp d1 \<and> cc1 \<le> cc' \<and> dc1 \<le> dc'" .
  ultimately show ?case
    by linarith
qed

lemma tally_exp_lower:
  "foldl tally (c, d, cc, dc) g = (c', d', cc', dc') \<Longrightarrow>
     lo \<le> dexp c \<Longrightarrow> lo \<le> dexp d \<Longrightarrow> \<forall>t\<in>set g. lo \<le> dexp (Amount t) \<Longrightarrow>
     lo \<le> dexp c' \<and> lo \<le> dexp d'"
proof (induction g arbitrary: c d cc dc)
  case Nil
  then show ?case by simp
next
  case (Cons t g)
  obtain c1 d1 cc1 dc1 where s: "tally (c, d, cc, dc) t = (c1, d1, cc1, dc1)"
    by (cases "tally (c, d, cc, dc) t")
  with Cons.prems(2,3,4) have b: "lo \<le> dexp c1" "lo \<le> dexp d1"
    by (auto simp: tally_def dexp_Add split: if_splits)
  from Cons.prems(1) s have f: "foldl tally (c1, d1, cc1, dc1) g = (c', d', cc', dc')"
    by simp
  from Cons.prems(4) have r: "\<forall>t\<in>set g. lo \<le> dexp (Amount t)"
    by simp
  show ?case
    by (rule Cons.IH [OF f b r])
qed

lemma tally_sum:
  "foldl tally (c, d, cc, dc) g = (c', d', cc', dc') \<Longrightarrow>
     \<forall>t\<in>set g. Type t = Credit \<or> Type t = Debit \<Longrightarrow>
     dec_val c' + dec_val d' = dec_val c + dec_val d + (\<Sum>t\<leftarrow>g. dec_val (Amount t))"
proof (induction g arbitrary: c d cc dc)
  case Nil
  then show ?case by simp
next
  case (Cons t g)
  obtain c1 d1 cc1 dc1 where s: "tally (c, d, cc, dc) t = (c1, d1, cc1, dc1)"
    by (cases "tally (c, d, cc, dc) t")
  with Cons.prems(2) have b: "dec_val c1 + dec_val d1 = dec_val c + dec_val d + dec_val (Amount t)"
    by (auto simp: tally_def dec_val_Add IsCredit_def IsDebit_def split: if_splits)
  from Cons.prems(1) s have f: "foldl tally (c1, d1, cc1, dc1) g = (c', d', cc', dc')"
    by simp
  from Cons.prems(2) have r: "\<forall>t\<in>set g. Type t = Credit \<or> Type t = Debit"
    by simp
  from Cons.IH [OF f r] b show ?case
    by simp
qed

text \<open>A guarded average never panics on a total whose exponent is the sum loop's.\<close>

lemma average_ok:
  assumes "- 2147483648 \<le> dexp tot" and "dexp tot \<le> 1"
  shows "\<exists>avg. average tot n = Inr avg \<and>
           (0 < n \<longrightarrow> Div tot (NewFromInt n) = Inr avg \<and>
                \<bar>dec_val avg - dec_val tot / rat_of_int n\<bar> \<le> 5 / 10 ^ 17) \<and>
           (n \<le> 0 \<longrightarrow> avg = zeroValue)"
proof (cases "0 < n")
  case True
  from Div_accuracy [OF True assms] True show ?thesis
    by (auto simp: average_def)
next
  case False
  then show ?thesis
    by (simp add: average_def)
qed

lemma calculateMonthlySummary_ok:
  assumes g: "g \<noteq> []" and lo: "\<forall>t\<in>set g. - 2147483648 \<le> dexp (Amount t)"
  shows "\<exists>ms. calculateMonthlySummary cy k g = Inr ms \<and>
           Month ms = month (Date (hd g)) \<and> Year ms = year (Date (hd g)) \<and>
           TransactionCount ms = int (length g) \<and>
           (TotalCredits ms, TotalDebits ms, CreditCount ms, DebitCount ms) =
              foldl tally (Zero, Zero, 0, 0) g \<and>
           average (TotalCredits ms) (CreditCount ms) = Inr (AverageCredit ms) \<and>
           average (TotalDebits ms) (DebitCount ms) = Inr (AverageDebit ms)"
proof -
  obtain c d cc dc where f: "foldl tally (Zero, Zero, 0, 0) g = (c, d, cc, dc)"
    by (cases "foldl tally (Zero, Zero, 0, 0) g")
  from tally_exp_upper [OF f] have up: "dexp c \<le> 1" "dexp d \<le> 1"
    by (simp_all add: dec_val_Zero)
  from tally_exp_lower [OF f, of "- 2147483648"] lo
  have low: "- 2147483648 \<le> dexp c" "- 2147483648 \<le> dexp d"
    by (simp_all add: dec_val_Zero)
  from average_ok [OF low(1) up(1), of cc] obtain ac where ac: "average c cc = Inr ac"
    by blast
  from average_ok [OF low(2) up(2), of dc] obtain ad where ad: "average d dc = Inr ad"
    by blast
  show ?thesis
    using g f ac ad by (simp add: calculateMonthlySummary_def Let_def)
qed

lemma summariseMonths_Inr:
  "summariseMonths cy m = Inr mss \<Longrightarrow>
     list_all2 (\<lambda>e r. fst r = fst e \<and> calculateMonthlySummary cy (fst e) (snd e) = Inr (snd r)) m mss"
proof (induction m arbitrary: mss)
  case Nil
  then show ?case by simp
next
  case (Cons e m)
  obtain k g where e: "e = (k, g)"
    by (cases e)
  from Cons.prems obtain ms rest where
    ms: "calculateMonthlySummary cy k g = Inr ms" and
    rest: "summariseMonths cy m = Inr rest" and mss: "mss = (k, ms) # rest"
    unfolding e by (auto split: sum.splits)
  from Cons.IH [OF rest] ms show ?case
    by (simp add: e mss)
qed

lemma summariseMonths_ok:
  assumes "\<forall>e\<in>set m. snd e \<noteq> [] \<and> (\<forall>t\<in>set (snd e). - 2147483648 \<le> dexp (Amount t))"
  shows "\<exists>mss. summariseMonths cy m = Inr mss"
  using assms
proof (induction m)
  case Nil
  then show ?case by simp
next
  case (Cons e m)
  obtain k g where e: "e = (k, g)"
    by (cases e)
  from Cons.prems e have "g \<noteq> []" "\<forall>t\<in>set g. - 2147483648 \<le> dexp (Amount t)"
    by auto
  from calculateMonthlySummary_ok [OF this, of cy k] obtain ms where
    "calculateMonthlySummary cy k g = Inr ms"
    by blast
  moreover from Cons obtain mss where "summariseMonths cy m = Inr mss"
    by auto
  ultimately show ?case
    by (simp add: e)
qed

lemma monthly_sum:
  assumes "calculateMonthlySummary cy k g = Inr ms"
    and "\<forall>t\<in>set g. Type t = Credit \<or> Type t = Debit"
  shows "dec_val (TotalCredits ms) + dec_val (TotalDebits ms) = (\<Sum>t\<leftarrow>g. dec_val (Amount t))"
proof (cases "g = []")
  case True
  with assms(1) show ?thesis
    by (auto simp: calculateMonthlySummary_def dec_val_Zero)
next
  case False
  obtain c d cc dc where f: "foldl tally (Zero, Zero, 0, 0) g = (c, d, cc, dc)"
    by (cases "foldl tally (Zero, Zero, 0, 0) g")
  with assms(1) False have "TotalCredits ms = c" "TotalDebits ms = d"
    by (auto simp: calculateMonthlySummary_def Let_def split: sum.splits)
  with tally_sum [OF f assms(2)] show ?thesis
    by (simp add: dec_val_Zero)
qed

lemma summaries_sum:
  assumes "list_all2 (\<lambda>e r. fst r = fst e \<and> calculateMonthlySummary cy (fst e) (snd e) = Inr (snd r)) m mss"
    and "\<forall>e\<in>set m. \<forall>t\<in>set (snd e). Type t = Credit \<or> Type t = Debit"
  shows "(\<Sum>r\<leftarrow>mss. dec_val (TotalCredits (snd r))) + (\<Sum>r\<leftarrow>mss. dec_val (TotalDebits (snd r))) =
         (\<Sum>e\<leftarrow>m. \<Sum>t\<leftarrow>snd e. dec_val (Amount t))"
  using assms
proof (induction rule: list_all2_induct)
  case Nil
  then show ?case by simp
next
  case (Cons e m r mss)
  from Cons.hyps(1) Cons.prems
  have "dec_val (TotalCredits (snd r)) + dec_val (TotalDebits (snd r)) =
        (\<Sum>t\<leftarrow>snd e. dec_val (Amount t))"
    by (intro monthly_sum [of cy "fst e"]) auto
  moreover from Cons have
    "(\<Sum>r\<leftarrow>mss. dec_val (TotalCredits (snd r))) + (\<Sum>r\<leftarrow>mss. dec_val (TotalDebits (snd r))) =
         (\<Sum>e\<leftarrow>m. \<Sum>t\<leftarrow>snd e. dec_val (Amount t))"
    by simp
  ultimately show ?case
    by simp
qed

lemma update_sum:
  fixes h :: "Transaction \<Rightarrow> rat"
  shows "(\<Sum>e\<leftarrow>AList.update k (lookupGroup m k @ [tx]) m. \<Sum>t\<leftarrow>snd e. h t) =
         (\<Sum>e\<leftarrow>m. \<Sum>t\<leftarrow>snd e. h t) + h tx"
  by (induction m) (auto simp: lookupGroup_def)

lemma groups_sum:
  fixes h :: "Transaction \<Rightarrow> rat"
  shows "(\<Sum>e\<leftarrow>foldl groupStep m txs. \<Sum>t\<leftarrow>snd e. h t) =
         (\<Sum>e\<leftarrow>m. \<Sum>t\<leftarrow>snd e. h t) + (\<Sum>t\<leftarrow>txs. h t)"
  by (induction txs arbitrary: m) (simp_all add: groupStep_def Let_def update_sum)

lemma balance_sum:
  "dec_val (foldl (\<lambda>b tx. Add b (Amount tx)) b0 txs) = dec_val b0 + (\<Sum>t\<leftarrow>txs. dec_val (Amount t))"
  by (induction txs arbitrary: b0) (simp_all add: dec_val_Add)

lemma CalculateSummary_Inr:
  assumes "CalculateSummary cy acc txs = Inr s"
  shows "TotalBalance s = (if txs = [] then Zero else foldl (\<lambda>b tx. Add b (Amount tx)) Zero txs) \<and>
         TotalTransactions s = int (length txs) \<and> SummaryAccountID s = acc \<and>
         summariseMonths cy (if txs = [] then [] else groupTransactionsByMonth txs) =
           Inr (MonthlySummaries s)"
  using assms
  by (auto simp: CalculateSummary_def Let_def split: if_splits sum.splits)

lemma monthly_sample:
  assumes "calculateMonthlySummary cy k g = Inr ms" and "g \<noteq> []"
  shows "Month ms = month (Date (hd g)) \<and> Year ms = year (Date (hd g)) \<and>
         TransactionCount ms = int (length g)"
  using assms
  by (auto simp: calculateMonthlySummary_def Let_def split: prod.splits sum.splits)

lemma summaries_keys:
  assumes "list_all2 (\<lambda>e r. fst r = fst e \<and> calculateMonthlySummary cy (fst e) (snd e) = Inr (snd r)) m mss"
  shows "map fst mss = map fst m"
  using assms by (induction rule: list_all2_induct) simp_all

lemma summaries_lookup:
  assumes "list_all2 (\<lambda>e r. fst r = fst e \<and> calculateMonthlySummary cy (fst e) (snd e) = Inr (snd r)) m mss"
    and "(k, g) \<in> set m"
  shows "\<exists>ms. (k, ms) \<in> set mss \<and> calculateMonthlySummary cy k g = Inr ms"
  using assms
proof (induction rule: list_all2_induct)
  case Nil
  then show ?case by simp
next
  case (Cons e m r mss)
  show ?case
  proof (cases "e = (k, g)")
    case True
    with Cons.hyps(1) have "(k, snd r) = r" "calculateMonthlySummary cy k g = Inr (snd r)"
      by (auto simp: prod_eq_iff)
    then show ?thesis
      by (metis list.set_intros(1))
  next
    case False
    with Cons.prems have "(k, g) \<in> set m"
      by simp
    from Cons.IH [OF this] show ?thesis
      by auto
  qed
qed

lemma summary_of_transaction:
  assumes s: "CalculateSummary cy acc txs = Inr s" and t: "t \<in> set txs"
  shows "\<exists>ms. map_of (MonthlySummaries s) (Format_January (Date t)) = Some ms \<and>
           calculateMonthlySummary cy (Format_January (Date t))
             (filter (\<lambda>u. Format_January (Date u) = Format_January (Date t)) txs) = Inr ms"
proof -
  let ?k = "Format_January (Date t)"
  let ?g = "filter (\<lambda>u. Format_January (Date u) = ?k) txs"
  let ?m = "groupTransactionsByMonth txs"
  from t have ne: "txs \<noteq> []"
    by auto
  from CalculateSummary_Inr [OF s] ne
  have "summariseMonths cy ?m = Inr (MonthlySummaries s)"
    by simp
  note rel = summariseMonths_Inr [OF this]
  from group_of_transaction [OF t] have "(?k, ?g) \<in> set ?m"
    by (rule map_of_SomeD)
  from summaries_lookup [OF rel this] obtain ms where
    ms: "(?k, ms) \<in> set (MonthlySummaries s)" and c: "calculateMonthlySummary cy ?k ?g = Inr ms"
    by blast
  have "distinct (map fst (MonthlySummaries s))"
    unfolding summaries_keys [OF rel] using groups_are_filters [of txs] by blast
  with ms have "map_of (MonthlySummaries s) ?k = Some ms"
    by simp
  with c show ?thesis
    by blast
qed

section \<open>The report\<close>

lemma overall_exp_upper:
  "foldl overall (c, d, cc, dc) r = (c', d', cc', dc') \<Longrightarrow> dexp c' \<le> dexp c \<and> dexp d' \<le> dexp d"
proof (induction r arbitrary: c d cc dc)
  case Nil
  then show ?case by simp
next
  case (Cons e r)
  obtain c1 d1 cc1 dc1 where s: "overall (c, d, cc, dc) e = (c1, d1, cc1, dc1)"
    by (cases "overall (c, d, cc, dc) e")
  then have "dexp c1 \<le> dexp c \<and> dexp d1 \<le> dexp d"
    by (auto simp: overall_def dexp_Add)
  moreover from Cons.prems s have "foldl overall (c1, d1, cc1, dc1) r = (c', d', cc', dc')"
    by simp
  from Cons.IH [OF this] have "dexp c' \<le> dexp c1 \<and> dexp d' \<le> dexp d1" .
  ultimately show ?case
    by linarith
qed

lemma overall_exp_lower:
  "foldl overall (c, d, cc, dc) r = (c', d', cc', dc') \<Longrightarrow>
     lo \<le> dexp c \<Longrightarrow> lo \<le> dexp d \<Longrightarrow>
     \<forall>e\<in>set r. lo \<le> dexp (TotalCredits (snd e)) \<and> lo \<le> dexp (TotalDebits (snd e)) \<Longrightarrow>
     lo \<le> dexp c' \<and> lo \<le> dexp d'"
proof (induction r arbitrary: c d cc dc)
  case Nil
  then show ?case by simp
next
  case (Cons e r)
  obtain c1 d1 cc1 dc1 where s: "overall (c, d, cc, dc) e = (c1, d1, cc1, dc1)"
    by (cases "overall (c, d, cc, dc) e")
  with Cons.prems(2,3,4) have b: "lo \<le> dexp c1" "lo \<le> dexp d1"
    by (auto simp: overall_def dexp_Add)
  from Cons.prems(1) s have f: "foldl overall (c1, d1, cc1, dc1) r = (c', d', cc', dc')"
    by simp
  from Cons.prems(4)
  have r: "\<forall>e\<in>set r. lo \<le> dexp (TotalCredits (snd e)) \<and> lo \<le> dexp (TotalDebits (snd e))"
    by simp
  show ?case
    by (rule Cons.IH [OF f b r])
qed

text \<open>The report, once the two overall averages are known.\<close>

lemma FormatSummaryForEmail_text:
  assumes f: "foldl overall (Zero, Zero, 0, 0) r2 = (tc, td, cc, dc)"
    and d: "0 < dc \<longrightarrow> Div td (NewFromInt dc) = Inr avgD"
    and c: "0 < cc \<longrightarrow> Div tc (NewFromInt cc) = Inr avgC"
  shows "FormatSummaryForEmail r1 r2 s =
     Inr (foldl monthLine (''Total balance is '' @ StringFixed (TotalBalance s) 2 @ ''\<newline>'') r1
          @ (if 0 < dc then ''Average debit amount: '' @ StringFixed avgD 2 @ ''\<newline>'' else [])
          @ (if 0 < cc then ''Average credit amount: '' @ StringFixed avgC 2 else []))"
  using d c by (simp add: FormatSummaryForEmail_def Let_def f)

lemma monthly_guarded:
  assumes c: "calculateMonthlySummary cy k g = Inr ms" and g: "g \<noteq> []"
    and lo: "\<forall>t\<in>set g. - 2147483648 \<le> dexp (Amount t)"
  shows "- 2147483648 \<le> dexp (TotalCredits ms) \<and> - 2147483648 \<le> dexp (TotalDebits ms) \<and>
         0 \<le> CreditCount ms \<and> 0 \<le> DebitCount ms \<and>
         (0 < CreditCount ms \<longrightarrow>
            Div (TotalCredits ms) (NewFromInt (CreditCount ms)) = Inr (AverageCredit ms) \<and>
            \<bar>dec_val (AverageCredit ms) - dec_val (TotalCredits ms) / rat_of_int (CreditCount ms)\<bar>
              \<le> 5 / 10 ^ 17) \<and>
         (CreditCount ms = 0 \<longrightarrow> AverageCredit ms = zeroValue) \<and>
         (0 < DebitCount ms \<longrightarrow>
            Div (TotalDebits ms) (NewFromInt (DebitCount ms)) = Inr (AverageDebit ms) \<and>
            \<bar>dec_val (AverageDebit ms) - dec_val (TotalDebits ms) / rat_of_int (DebitCount ms)\<bar>
              \<le> 5 / 10 ^ 17) \<and>
         (DebitCount ms = 0 \<longrightarrow> AverageDebit ms = zeroValue)"
proof -
  from calculateMonthlySummary_ok [OF g lo, of cy k] c have
    f: "(TotalCredits ms, TotalDebits ms, CreditCount ms, DebitCount ms) =
          foldl tally (Zero, Zero, 0, 0) g" and
    ac: "average (TotalCredits ms) (CreditCount ms) = Inr (AverageCredit ms)" and
    ad: "average (TotalDebits ms) (DebitCount ms) = Inr (AverageDebit ms)"
    by auto
  note f' = f [symmetric]
  from tally_exp_upper [OF f'] have up: "dexp (TotalCredits ms) \<le> 1" "dexp (TotalDebits ms) \<le> 1"
    and cnt: "0 \<le> CreditCount ms" "0 \<le> DebitCount ms"
    by (simp_all add: dec_val_Zero)
  from tally_exp_lower [OF f', of "- 2147483648"] lo
  have low: "- 2147483648 \<le> dexp (TotalCredits ms)" "- 2147483648 \<le> dexp (TotalDebits ms)"
    by (simp_all add: dec_val_Zero)
  from average_ok [OF low(1) up(1), of "CreditCount ms"] ac
  have 1: "(0 < CreditCount ms \<longrightarrow>
            Div (TotalCredits ms) (NewFromInt (CreditCount ms)) = Inr (AverageCredit ms) \<and>
            \<bar>dec_val (AverageCredit ms) - dec_val (TotalCredits ms) / rat_of_int (CreditCount ms)\<bar>
              \<le> 5 / 10 ^ 17) \<and>
         (CreditCount ms = 0 \<longrightarrow> AverageCredit ms = zeroValue)"
    by auto
  from average_ok [OF low(2) up(2), of "DebitCount ms"] ad
  have 2: "(0 < DebitCount ms \<longrightarrow>
            Div (TotalDebits ms) (NewFromInt (DebitCount ms)) = Inr (AverageDebit ms) \<and>
            \<bar>dec_val (AverageDebit ms) - dec_val (TotalDebits ms) / rat_of_int (DebitCount ms)\<bar>
              \<le> 5 / 10 ^ 17) \<and>
         (DebitCount ms = 0 \<longrightarrow> AverageDebit ms = zeroValue)"
    by auto
  from low cnt 1 2 show ?thesis
    by blast
qed

lemma CalculateSummary_ok:
  assumes "\<forall>t\<in>set txs. - 2147483648 \<le> dexp (Amount t)"
  shows "\<exists>s. CalculateSummary cy acc txs = Inr s"
proof (cases "txs = []")
  case True
  then show ?thesis
    by (simp add: CalculateSummary_def)
next
  case False
  have "\<forall>e\<in>set (groupTransactionsByMonth txs).
          snd e \<noteq> [] \<and> (\<forall>t\<in>set (snd e). - 2147483648 \<le> dexp (Amount t))"
  proof
    fix e
    assume e: "e \<in> set (groupTransactionsByMonth txs)"
    with groups_are_filters [of txs]
    have "snd e = filter (\<lambda>t. Format_January (Date t) = fst e) txs" "snd e \<noteq> []"
      by (cases e; auto)+
    with assms show "snd e \<noteq> [] \<and> (\<forall>t\<in>set (snd e). - 2147483648 \<le> dexp (Amount t))"
      by auto
  qed
  from summariseMonths_ok [OF this, of cy] obtain mss where
    "summariseMonths cy (groupTransactionsByMonth txs) = Inr mss"
    by blast
  with False show ?thesis
    by (simp add: CalculateSummary_def Let_def)
qed

lemma summary_entries:
  assumes s: "CalculateSummary cy acc txs = Inr s" and r: "r \<in> set (MonthlySummaries s)"
  shows "\<exists>g. g \<noteq> [] \<and> set g \<subseteq> set txs \<and> calculateMonthlySummary cy (fst r) g = Inr (snd r)"
proof -
  have m: "(if txs = [] then [] else groupTransactionsByMonth txs) = groupTransactionsByMonth txs"
    by (simp add: groupTransactionsByMonth_def)
  from CalculateSummary_Inr [OF s]
  have "summariseMonths cy (groupTransactionsByMonth txs) = Inr (MonthlySummaries s)"
    unfolding m by simp
  note rel = summariseMonths_Inr [OF this]
  from r obtain i where i: "i < length (MonthlySummaries s)" "MonthlySummaries s ! i = r"
    by (auto simp: in_set_conv_nth)
  let ?e = "groupTransactionsByMonth txs ! i"
  from rel i have il: "i < length (groupTransactionsByMonth txs)"
    and c: "fst r = fst ?e" "calculateMonthlySummary cy (fst ?e) (snd ?e) = Inr (snd r)"
    by (auto simp: list_all2_conv_all_nth)
  from il have "?e \<in> set (groupTransactionsByMonth txs)"
    by simp
  with groups_are_filters [of txs]
  have "snd ?e = filter (\<lambda>t. Format_January (Date t) = fst ?e) txs" "snd ?e \<noteq> []"
    by (cases ?e; auto)+
  with c show ?thesis
    by (intro exI [of _ "snd ?e"]) auto
qed

section \<open>The example, evaluated\<close>

lemma trims:
  "TrimSpace ''1'' = ''1''" "TrimSpace ''2'' = ''2''" "TrimSpace ''3'' = ''3''" "TrimSpace ''4'' = ''4''"
  "TrimSpace ''7/15'' = ''7/15''" "TrimSpace ''7/28'' = ''7/28''"
  "TrimSpace ''8/2'' = ''8/2''" "TrimSpace ''8/13'' = ''8/13''"
  "TrimSpace ''+60.5'' = ''+60.5''" "TrimSpace ''-10.3'' = ''-10.3''"
  "TrimSpace ''-20.46'' = ''-20.46''" "TrimSpace ''+10'' = ''+10''"
  by code_simp+

lemma example_amounts:
  "parseAmount ''+60.5'' = Inr (\<lparr>dvalue = 605, dexp = - 1\<rparr>, Credit)"
  "parseAmount ''-10.3'' = Inr (\<lparr>dvalue = - 103, dexp = - 1\<rparr>, Debit)"
  "parseAmount ''-20.46'' = Inr (\<lparr>dvalue = - 2046, dexp = - 2\<rparr>, Debit)"
  "parseAmount ''+10'' = Inr (\<lparr>dvalue = 10, dexp = 0\<rparr>, Credit)"
  by code_simp+

lemma example_parses:
  "time_Parse ''1/2'' ''7/15'' = Some \<lparr>year = 0, month = 7, day = 15\<rparr>"
  "time_Parse ''1/2'' ''7/28'' = Some \<lparr>year = 0, month = 7, day = 28\<rparr>"
  "time_Parse ''1/2'' ''8/2'' = Some \<lparr>year = 0, month = 8, day = 2\<rparr>"
  "time_Parse ''1/2'' ''8/13'' = Some \<lparr>year = 0, month = 8, day = 13\<rparr>"
  by code_simp+

lemma daysIn_jul_aug: "daysIn 7 y = 31" "daysIn 8 y = 31"
  by (simp_all add: daysIn_def monthDays_def)

lemma example_dates:
  "parseDate cy ''7/15'' = Inr \<lparr>year = cy, month = 7, day = 15\<rparr>"
  "parseDate cy ''7/28'' = Inr \<lparr>year = cy, month = 7, day = 28\<rparr>"
  "parseDate cy ''8/2'' = Inr \<lparr>year = cy, month = 8, day = 2\<rparr>"
  "parseDate cy ''8/13'' = Inr \<lparr>year = cy, month = 8, day = 13\<rparr>"
proof -
  have a: "''1/2'' \<in> set (take 4 formats)"
    by (simp add: yearless_formats)
  show "parseDate cy ''7/15'' = Inr \<lparr>year = cy, month = 7, day = 15\<rparr>"
    using parseDate_yearless [OF a example_parses(1), of cy] by (simp add: daysIn_jul_aug)
  show "parseDate cy ''7/28'' = Inr \<lparr>year = cy, month = 7, day = 28\<rparr>"
    using parseDate_yearless [OF a example_parses(2), of cy] by (simp add: daysIn_jul_aug)
  show "parseDate cy ''8/2'' = Inr \<lparr>year = cy, month = 8, day = 2\<rparr>"
    using parseDate_yearless [OF a example_parses(3), of cy] by (simp add: daysIn_jul_aug)
  show "parseDate cy ''8/13'' = Inr \<lparr>year = cy, month = 8, day = 13\<rparr>"
    using parseDate_yearless [OF a example_parses(4), of cy] by (simp add: daysIn_jul_aug)
qed

lemma example_not_header: "\<not> isHeaderRow lowerCase [''1'', ''7/15'', ''+60.5'']"
  by code_simp

lemma example_transactions:
  "ReadTransactions lowerCase cy exampleRows acc =
     Inr [transactionOf acc cy 7 15 605 (- 1) Credit ''1'', transactionOf acc cy 7 28 (- 103) (- 1) Debit ''2'',
          transactionOf acc cy 8 2 (- 2046) (- 2) Debit ''3'', transactionOf acc cy 8 13 10 0 Credit ''4'']"
  by (simp add: ReadTransactions_def exampleRows_def readLoop_Fields readLoop_Nil
      example_not_header parseTransaction_def trims example_dates example_amounts transactionOf_def)

text \<open>A first row that is a header by a letter beyond ASCII is skipped as any header is.\<close>

lemma dotted_I_header_skipped:
  assumes "lowerCase 0x130 = 0x69"
  shows "ReadTransactions lowerCase cy
     [Fields [dottedId, ''Date2'', ''Txn''],
      Fields [''1'', ''7/15'', ''+60.5'']] acc =
     Inr [transactionOf acc cy 7 15 605 (- 1) Credit ''1'']"
  by (simp add: ReadTransactions_def readLoop_Fields readLoop_Nil
      isHeaderRow_dotted_I [of lowerCase, OF assms] example_not_header
      parseTransaction_def trims example_dates example_amounts transactionOf_def)

lemma month_names: "Month_String 7 = ''July''" "Month_String 8 = ''August''"
  by code_simp+

lemma example_groups:
  "groupTransactionsByMonth (exampleTransactions cy acc) =
     [(''July'', [transactionOf acc cy 7 15 605 (- 1) Credit ''1'', transactionOf acc cy 7 28 (- 103) (- 1) Debit ''2'']),
      (''August'', [transactionOf acc cy 8 2 (- 2046) (- 2) Debit ''3'', transactionOf acc cy 8 13 10 0 Credit ''4''])]"
  by (simp add: groupTransactionsByMonth_def exampleTransactions_def groupStep_def Let_def
      Format_January_def transactionOf_def month_names lookupGroup_def)

lemma example_divisions:
  "Div \<lparr>dvalue = 605, dexp = - 1\<rparr> (NewFromInt 1) = Inr \<lparr>dvalue = 605000000000000000, dexp = - 16\<rparr>"
  "Div \<lparr>dvalue = - 103, dexp = - 1\<rparr> (NewFromInt 1) = Inr \<lparr>dvalue = - 103000000000000000, dexp = - 16\<rparr>"
  "Div \<lparr>dvalue = 10, dexp = 0\<rparr> (NewFromInt 1) = Inr \<lparr>dvalue = 100000000000000000, dexp = - 16\<rparr>"
  "Div \<lparr>dvalue = - 2046, dexp = - 2\<rparr> (NewFromInt 1) = Inr \<lparr>dvalue = - 204600000000000000, dexp = - 16\<rparr>"
  "Div \<lparr>dvalue = - 3076, dexp = - 2\<rparr> (NewFromInt 2) = Inr \<lparr>dvalue = - 153800000000000000, dexp = - 16\<rparr>"
  "Div \<lparr>dvalue = 705, dexp = - 1\<rparr> (NewFromInt 2) = Inr \<lparr>dvalue = 352500000000000000, dexp = - 16\<rparr>"
  by code_simp+

lemma example_sums:
  "Add Zero \<lparr>dvalue = 605, dexp = - 1\<rparr> = \<lparr>dvalue = 605, dexp = - 1\<rparr>"
  "Add Zero \<lparr>dvalue = - 103, dexp = - 1\<rparr> = \<lparr>dvalue = - 103, dexp = - 1\<rparr>"
  "Add Zero \<lparr>dvalue = 10, dexp = 0\<rparr> = \<lparr>dvalue = 10, dexp = 0\<rparr>"
  "Add Zero \<lparr>dvalue = - 2046, dexp = - 2\<rparr> = \<lparr>dvalue = - 2046, dexp = - 2\<rparr>"
  "Add \<lparr>dvalue = 605, dexp = - 1\<rparr> \<lparr>dvalue = 10, dexp = 0\<rparr> = \<lparr>dvalue = 705, dexp = - 1\<rparr>"
  "Add \<lparr>dvalue = 10, dexp = 0\<rparr> \<lparr>dvalue = 605, dexp = - 1\<rparr> = \<lparr>dvalue = 705, dexp = - 1\<rparr>"
  "Add \<lparr>dvalue = - 103, dexp = - 1\<rparr> \<lparr>dvalue = - 2046, dexp = - 2\<rparr> = \<lparr>dvalue = - 3076, dexp = - 2\<rparr>"
  "Add \<lparr>dvalue = - 2046, dexp = - 2\<rparr> \<lparr>dvalue = - 103, dexp = - 1\<rparr> = \<lparr>dvalue = - 3076, dexp = - 2\<rparr>"
  "Add \<lparr>dvalue = 605, dexp = - 1\<rparr> \<lparr>dvalue = - 103, dexp = - 1\<rparr> = \<lparr>dvalue = 502, dexp = - 1\<rparr>"
  "Add \<lparr>dvalue = 502, dexp = - 1\<rparr> \<lparr>dvalue = - 2046, dexp = - 2\<rparr> = \<lparr>dvalue = 2974, dexp = - 2\<rparr>"
  "Add \<lparr>dvalue = 2974, dexp = - 2\<rparr> \<lparr>dvalue = 10, dexp = 0\<rparr> = \<lparr>dvalue = 3974, dexp = - 2\<rparr>"
  by code_simp+

lemma example_monthly:
  "calculateMonthlySummary now ''July''
     [transactionOf acc cy 7 15 605 (- 1) Credit ''1'', transactionOf acc cy 7 28 (- 103) (- 1) Debit ''2''] = Inr (exampleJuly cy)"
  "calculateMonthlySummary now ''August''
     [transactionOf acc cy 8 2 (- 2046) (- 2) Debit ''3'', transactionOf acc cy 8 13 10 0 Credit ''4''] = Inr (exampleAugust cy)"
  by (simp_all add: calculateMonthlySummary_def tally_def IsCredit_def IsDebit_def transactionOf_def
      Credit_neq_Debit Credit_neq_Debit [symmetric] example_sums average_def example_divisions
      exampleJuly_def exampleAugust_def)

lemma example_summary:
  "CalculateSummary now acc (exampleTransactions cy acc) =
     Inr \<lparr>SummaryAccountID = acc, TotalBalance = \<lparr>dvalue = 3974, dexp = - 2\<rparr>,
          MonthlySummaries = [(''July'', exampleJuly cy), (''August'', exampleAugust cy)],
          TotalTransactions = 4\<rparr>"
proof -
  have b: "foldl (\<lambda>b tx. Add b (Amount tx)) Zero (exampleTransactions cy acc) =
      \<lparr>dvalue = 3974, dexp = - 2\<rparr>"
    by (simp add: exampleTransactions_def transactionOf_def example_sums)
  show ?thesis
    by (simp add: CalculateSummary_def Let_def b example_groups example_monthly)
      (simp add: exampleTransactions_def)
qed

lemma mset_pair:
  assumes "mset r = mset [a, b]"
  shows "r = [a, b] \<or> r = [b, a]"
proof -
  from mset_eq_length [OF assms] have "length r = 2"
    by simp
  then obtain x y where r: "r = [x, y]"
    by (cases r; cases "tl r") auto
  from assms show ?thesis
    unfolding r by (auto simp: add_eq_conv_ex)
qed

lemma example_strings:
  "StringFixed \<lparr>dvalue = 3974, dexp = - 2\<rparr> 2 = ''39.74''"
  "StringFixed \<lparr>dvalue = - 153800000000000000, dexp = - 16\<rparr> 2 = ''-15.38''"
  "StringFixed \<lparr>dvalue = 352500000000000000, dexp = - 16\<rparr> 2 = ''35.25''"
  "show_int 2 = ''2''"
  by code_simp+

lemma example_lines:
  "linesOf exampleReportJulyFirst =
     [''Total balance is 39.74'', ''Number of transactions in July: 2'',
      ''Number of transactions in August: 2'', ''Average debit amount: -15.38'',
      ''Average credit amount: 35.25'']"
  "linesOf exampleReportAugustFirst =
     [''Total balance is 39.74'', ''Number of transactions in August: 2'',
      ''Number of transactions in July: 2'', ''Average debit amount: -15.38'',
      ''Average credit amount: 35.25'']"
  by code_simp+

lemma example_report:
  assumes "TotalBalance s = \<lparr>dvalue = 3974, dexp = - 2\<rparr>"
    and r1: "r1 = [(''July'', exampleJuly cy), (''August'', exampleAugust cy)] \<or> r1 = [(''August'', exampleAugust cy), (''July'', exampleJuly cy)]"
    and r2: "r2 = [(''July'', exampleJuly cy), (''August'', exampleAugust cy)] \<or> r2 = [(''August'', exampleAugust cy), (''July'', exampleJuly cy)]"
  shows "FormatSummaryForEmail r1 r2 s =
      Inr (if r1 = [(''July'', exampleJuly cy), (''August'', exampleAugust cy)] then exampleReportJulyFirst else exampleReportAugustFirst)"
proof -
  have f: "foldl overall (Zero, Zero, 0, 0) r2 =
      (\<lparr>dvalue = 705, dexp = - 1\<rparr>, \<lparr>dvalue = - 3076, dexp = - 2\<rparr>, 2, 2)"
    using r2 by (auto simp: overall_def exampleJuly_def exampleAugust_def example_sums)
  have m: "foldl monthLine (''Total balance is '' @ StringFixed (TotalBalance s) 2 @ ''\<newline>'') r1 =
      (if r1 = [(''July'', exampleJuly cy), (''August'', exampleAugust cy)]
       then ''Total balance is 39.74\<newline>Number of transactions in July: 2\<newline>Number of transactions in August: 2\<newline>''
       else ''Total balance is 39.74\<newline>Number of transactions in August: 2\<newline>Number of transactions in July: 2\<newline>'')"
    using r1 assms(1)
    by (auto simp: monthLine_def exampleJuly_def exampleAugust_def example_strings)
  have "FormatSummaryForEmail r1 r2 s =
     Inr (foldl monthLine (''Total balance is '' @ StringFixed (TotalBalance s) 2 @ ''\<newline>'') r1
          @ (if (0::int) < 2 then ''Average debit amount: ''
               @ StringFixed \<lparr>dvalue = - 153800000000000000, dexp = - 16\<rparr> 2 @ ''\<newline>'' else [])
          @ (if (0::int) < 2 then ''Average credit amount: ''
               @ StringFixed \<lparr>dvalue = 352500000000000000, dexp = - 16\<rparr> 2 else []))"
    by (rule FormatSummaryForEmail_text [OF f]) (simp_all add: example_divisions)
  then show ?thesis
    unfolding m by (simp add: example_strings exampleReportJulyFirst_def exampleReportAugustFirst_def)
qed

lemma example_values:
  "dec_val \<lparr>dvalue = 3974, dexp = - 2\<rparr> = 3974 / 100"
  "dec_val (AverageCredit (exampleJuly cy)) = 605 / 10" "dec_val (AverageDebit (exampleJuly cy)) = - 103 / 10"
  "dec_val (AverageCredit (exampleAugust cy)) = 10" "dec_val (AverageDebit (exampleAugust cy)) = - 2046 / 100"
  "TransactionCount (exampleJuly cy) = 2" "TransactionCount (exampleAugust cy) = 2"
  by (simp_all add: dec_val_def exampleJuly_def exampleAugust_def)

lemma example_kinds:
  "\<forall>t\<in>set (exampleTransactions cy acc). Type t = Credit \<or> Type t = Debit"
  by (simp add: exampleTransactions_def transactionOf_def)

lemma example_exponents:
  "\<forall>t\<in>set (exampleTransactions cy acc). int32 (dexp (Amount t))"
  by (simp add: exampleTransactions_def transactionOf_def int32_def)

section \<open>The aggregator and the report\<close>

text \<open>
  Claim C4. When every transaction is a Credit or a Debit, the total balance of the summary
  is the sum over the monthly summaries of the total credits plus the sum over the monthly
  summaries of the total debits, and it is the exact sum of the amounts of the transactions.
\<close>

theorem balance_is_sum_of_monthly_totals:
  assumes "CalculateSummary cy acc txs = Inr s"
    and "\<forall>t\<in>set txs. Type t = Credit \<or> Type t = Debit"
  shows "dec_val (TotalBalance s) =
           (\<Sum>r\<leftarrow>MonthlySummaries s. dec_val (TotalCredits (snd r))) +
           (\<Sum>r\<leftarrow>MonthlySummaries s. dec_val (TotalDebits (snd r))) \<and>
         dec_val (TotalBalance s) = (\<Sum>t\<leftarrow>txs. dec_val (Amount t))"
proof -
  note c = CalculateSummary_Inr [OF assms(1)]
  have bal: "dec_val (TotalBalance s) = (\<Sum>t\<leftarrow>txs. dec_val (Amount t))"
    using c by (simp add: balance_sum dec_val_Zero)
  let ?m = "if txs = [] then [] else groupTransactionsByMonth txs"
  have m: "?m = groupTransactionsByMonth txs"
    by (simp add: groupTransactionsByMonth_def)
  from c have "summariseMonths cy (groupTransactionsByMonth txs) = Inr (MonthlySummaries s)"
    unfolding m by simp
  note rel = summariseMonths_Inr [OF this]
  have kinds: "\<forall>e\<in>set (groupTransactionsByMonth txs). \<forall>t\<in>set (snd e). Type t = Credit \<or> Type t = Debit"
  proof (intro ballI)
    fix e t
    assume e: "e \<in> set (groupTransactionsByMonth txs)" and t: "t \<in> set (snd e)"
    from e groups_are_filters [of txs]
    have "snd e = filter (\<lambda>t. Format_January (Date t) = fst e) txs"
      by (cases e) auto
    with t have "t \<in> set txs"
      by simp
    with assms(2) show "Type t = Credit \<or> Type t = Debit"
      by blast
  qed
  have "(\<Sum>r\<leftarrow>MonthlySummaries s. dec_val (TotalCredits (snd r))) +
        (\<Sum>r\<leftarrow>MonthlySummaries s. dec_val (TotalDebits (snd r))) =
        (\<Sum>e\<leftarrow>groupTransactionsByMonth txs. \<Sum>t\<leftarrow>snd e. dec_val (Amount t))"
    by (rule summaries_sum [OF rel kinds])
  also have "\<dots> = (\<Sum>t\<leftarrow>txs. dec_val (Amount t))"
    unfolding groupTransactionsByMonth_def groups_sum by simp
  finally show ?thesis
    using bal by simp
qed

text \<open>The theorem on the transactions of the example.\<close>

theorem balance_is_sum_of_monthly_totals_witness:
  "\<exists>s. CalculateSummary 2023 ''test-account'' (exampleTransactions 2023 ''test-account'') = Inr s \<and>
       dec_val (TotalBalance s) = 3974 / 100 \<and>
       (\<Sum>r\<leftarrow>MonthlySummaries s. dec_val (TotalCredits (snd r))) +
       (\<Sum>r\<leftarrow>MonthlySummaries s. dec_val (TotalDebits (snd r))) = 3974 / 100 \<and>
       (\<Sum>t\<leftarrow>exampleTransactions 2023 ''test-account''. dec_val (Amount t)) = 3974 / 100"
proof -
  note c = example_summary [of 2023 "''test-account''" 2023]
  from balance_is_sum_of_monthly_totals [OF c example_kinds] c show ?thesis
    by (simp add: example_values)
qed

text \<open>
  Claim C8. The group of a transaction is keyed by the name of its month alone and holds
  every transaction of the collection with that month name, in order; so two transactions
  of the same month land in one group whatever their years. The month and the year of a
  monthly summary are those of the first transaction of the collection with that month name.
\<close>

theorem groups_by_month_name:
  "distinct (map fst (groupTransactionsByMonth txs)) \<and>
   (\<forall>t\<in>set txs.
      map_of (groupTransactionsByMonth txs) (Month_String (month (Date t))) =
        Some (filter (\<lambda>u. Month_String (month (Date u)) = Month_String (month (Date t))) txs)) \<and>
   (\<forall>t1\<in>set txs. \<forall>t2\<in>set txs. month (Date t1) = month (Date t2) \<longrightarrow>
      (\<exists>g. map_of (groupTransactionsByMonth txs) (Month_String (month (Date t1))) = Some g \<and>
           t1 \<in> set g \<and> t2 \<in> set g)) \<and>
   (CalculateSummary cy acc txs = Inr s \<longrightarrow>
      map fst (MonthlySummaries s) = map fst (groupTransactionsByMonth txs) \<and>
      (\<forall>t\<in>set txs. \<exists>ms.
         map_of (MonthlySummaries s) (Month_String (month (Date t))) = Some ms \<and>
         Month ms = month (Date (hd (filter
            (\<lambda>u. Month_String (month (Date u)) = Month_String (month (Date t))) txs))) \<and>
         Year ms = year (Date (hd (filter
            (\<lambda>u. Month_String (month (Date u)) = Month_String (month (Date t))) txs)))))"
proof (intro conjI ballI impI)
  show "distinct (map fst (groupTransactionsByMonth txs))"
    using groups_are_filters [of txs] by blast
next
  fix t
  assume "t \<in> set txs"
  from group_of_transaction [OF this]
  show "map_of (groupTransactionsByMonth txs) (Month_String (month (Date t))) =
        Some (filter (\<lambda>u. Month_String (month (Date u)) = Month_String (month (Date t))) txs)"
    by (simp add: Format_January_def)
next
  fix t1 t2
  assume t1: "t1 \<in> set txs" and t2: "t2 \<in> set txs" and m: "month (Date t1) = month (Date t2)"
  let ?g = "filter (\<lambda>u. Month_String (month (Date u)) = Month_String (month (Date t1))) txs"
  from group_of_transaction [OF t1]
  have "map_of (groupTransactionsByMonth txs) (Month_String (month (Date t1))) = Some ?g"
    by (simp add: Format_January_def)
  moreover have "t1 \<in> set ?g" "t2 \<in> set ?g"
    using t1 t2 m by simp_all
  ultimately show "\<exists>g. map_of (groupTransactionsByMonth txs) (Month_String (month (Date t1))) = Some g \<and>
           t1 \<in> set g \<and> t2 \<in> set g"
    by blast
next
  assume s: "CalculateSummary cy acc txs = Inr s"
  have m: "(if txs = [] then [] else groupTransactionsByMonth txs) = groupTransactionsByMonth txs"
    by (simp add: groupTransactionsByMonth_def)
  from CalculateSummary_Inr [OF s]
  have "summariseMonths cy (groupTransactionsByMonth txs) = Inr (MonthlySummaries s)"
    unfolding m by simp
  from summaries_keys [OF summariseMonths_Inr [OF this]]
  show "map fst (MonthlySummaries s) = map fst (groupTransactionsByMonth txs)" .
next
  fix t
  assume s: "CalculateSummary cy acc txs = Inr s" and t: "t \<in> set txs"
  let ?g = "filter (\<lambda>u. Month_String (month (Date u)) = Month_String (month (Date t))) txs"
  from summary_of_transaction [OF s t] obtain ms where
    l: "map_of (MonthlySummaries s) (Month_String (month (Date t))) = Some ms" and
    c: "calculateMonthlySummary cy (Month_String (month (Date t))) ?g = Inr ms"
    by (auto simp: Format_January_def)
  from t have "?g \<noteq> []"
    by (auto simp: filter_empty_conv)
  from monthly_sample [OF c this] l
  show "\<exists>ms. map_of (MonthlySummaries s) (Month_String (month (Date t))) = Some ms \<and>
         Month ms = month (Date (hd ?g)) \<and> Year ms = year (Date (hd ?g))"
    by blast
qed

text \<open>The theorem on a July of 2022 followed by a July of 2023: one group, reported as July 2022.\<close>

theorem groups_by_month_name_witness:
  "map_of (groupTransactionsByMonth twoJulys) ''July'' = Some twoJulys \<and>
   year (Date (twoJulys ! 0)) = 2022 \<and> year (Date (twoJulys ! 1)) = 2023 \<and>
   (\<exists>s ms. CalculateSummary 2024 ''test-account'' twoJulys = Inr s \<and>
       map fst (MonthlySummaries s) = [''July''] \<and>
       map_of (MonthlySummaries s) ''July'' = Some ms \<and> Month ms = 7 \<and> Year ms = 2022)"
proof -
  have lo: "\<forall>t\<in>set twoJulys. - 2147483648 \<le> dexp (Amount t)"
    by (simp add: twoJulys_def)
  from CalculateSummary_ok [OF lo, of 2024 "''test-account''"] obtain s where
    s: "CalculateSummary 2024 ''test-account'' twoJulys = Inr s"
    by blast
  have t: "twoJulys ! 0 \<in> set twoJulys"
    by (simp add: twoJulys_def)
  have k: "Month_String (month (Date (twoJulys ! 0))) = ''July''"
    by (simp add: twoJulys_def month_names)
  have f: "filter (\<lambda>u. Month_String (month (Date u)) = ''July'') twoJulys = twoJulys"
    by (simp add: twoJulys_def month_names)
  note th = groups_by_month_name [of twoJulys 2024 "''test-account''" s]
  from th t have g: "map_of (groupTransactionsByMonth twoJulys) ''July'' = Some twoJulys"
    unfolding k [symmetric] using k f by fastforce
  then have keys: "map fst (groupTransactionsByMonth twoJulys) = [''July'']"
    by (simp add: groupTransactionsByMonth_def twoJulys_def groupStep_def Let_def
        Format_January_def month_names lookupGroup_def)
  from th s t obtain ms where
    "map_of (MonthlySummaries s) (Month_String (month (Date (twoJulys ! 0)))) = Some ms"
    "Month ms = month (Date (hd (filter
            (\<lambda>u. Month_String (month (Date u)) = Month_String (month (Date (twoJulys ! 0)))) twoJulys)))"
    "Year ms = year (Date (hd (filter
            (\<lambda>u. Month_String (month (Date u)) = Month_String (month (Date (twoJulys ! 0)))) twoJulys)))"
    by blast
  then have ms: "map_of (MonthlySummaries s) ''July'' = Some ms" "Month ms = 7" "Year ms = 2022"
    unfolding k f by (simp_all add: twoJulys_def)
  from th s have "map fst (MonthlySummaries s) = map fst (groupTransactionsByMonth twoJulys)"
    by blast
  with keys have "map fst (MonthlySummaries s) = [''July'']"
    by simp
  with g s ms show ?thesis
    by (auto simp: twoJulys_def)
qed

text \<open>
  Claim C9. For every collection of transactions whose amounts are decimals of the library
  (the exponent is an \<^verbatim>\<open>int32\<close>), the empty collection too, the aggregator returns a
  summary and no division panics. In every monthly summary the counts are not negative; the
  average credit is the total of the credits divided by their count (as \<^verbatim>\<open>Div\<close> divides:
  the quotient rounded to 16 digits after the decimal point, within half a unit of the last
  digit) when the count is positive, and the zero value when the count is zero; likewise
  the average debit. The formatter returns its report for every order of iteration: an
  overall average is divided and printed when its overall count is positive, and is neither
  divided nor printed otherwise.
\<close>

theorem summary_and_report_never_fail:
  assumes wf: "\<forall>t\<in>set txs. int32 (dexp (Amount t))"
  shows "\<exists>s. CalculateSummary cy acc txs = Inr s \<and>
     (\<forall>r\<in>set (MonthlySummaries s).
        0 \<le> CreditCount (snd r) \<and> 0 \<le> DebitCount (snd r) \<and>
        (0 < CreditCount (snd r) \<longrightarrow>
           Div (TotalCredits (snd r)) (NewFromInt (CreditCount (snd r))) = Inr (AverageCredit (snd r)) \<and>
           \<bar>dec_val (AverageCredit (snd r)) -
              dec_val (TotalCredits (snd r)) / rat_of_int (CreditCount (snd r))\<bar> \<le> 5 / 10 ^ 17) \<and>
        (CreditCount (snd r) = 0 \<longrightarrow> AverageCredit (snd r) = zeroValue) \<and>
        (0 < DebitCount (snd r) \<longrightarrow>
           Div (TotalDebits (snd r)) (NewFromInt (DebitCount (snd r))) = Inr (AverageDebit (snd r)) \<and>
           \<bar>dec_val (AverageDebit (snd r)) -
              dec_val (TotalDebits (snd r)) / rat_of_int (DebitCount (snd r))\<bar> \<le> 5 / 10 ^ 17) \<and>
        (DebitCount (snd r) = 0 \<longrightarrow> AverageDebit (snd r) = zeroValue)) \<and>
     (\<forall>r1 r2. mset r1 = mset (MonthlySummaries s) \<and> mset r2 = mset (MonthlySummaries s) \<longrightarrow>
        (\<exists>tc td cc dc avgD avgC.
           foldl overall (Zero, Zero, 0, 0) r2 = (tc, td, cc, dc) \<and>
           (0 < dc \<longrightarrow> Div td (NewFromInt dc) = Inr avgD \<and>
              \<bar>dec_val avgD - dec_val td / rat_of_int dc\<bar> \<le> 5 / 10 ^ 17) \<and>
           (0 < cc \<longrightarrow> Div tc (NewFromInt cc) = Inr avgC \<and>
              \<bar>dec_val avgC - dec_val tc / rat_of_int cc\<bar> \<le> 5 / 10 ^ 17) \<and>
           FormatSummaryForEmail r1 r2 s =
             Inr (foldl monthLine
                    (''Total balance is '' @ StringFixed (TotalBalance s) 2 @ ''\<newline>'') r1
                  @ (if 0 < dc then ''Average debit amount: '' @ StringFixed avgD 2 @ ''\<newline>''
                     else [])
                  @ (if 0 < cc then ''Average credit amount: '' @ StringFixed avgC 2 else []))))"
proof -
  from wf have lo: "\<forall>t\<in>set txs. - 2147483648 \<le> dexp (Amount t)"
    by (simp add: int32_def)
  from CalculateSummary_ok [OF lo, of cy acc] obtain s where s: "CalculateSummary cy acc txs = Inr s"
    by blast
  have entry: "- 2147483648 \<le> dexp (TotalCredits (snd r)) \<and> - 2147483648 \<le> dexp (TotalDebits (snd r)) \<and>
         0 \<le> CreditCount (snd r) \<and> 0 \<le> DebitCount (snd r) \<and>
         (0 < CreditCount (snd r) \<longrightarrow>
            Div (TotalCredits (snd r)) (NewFromInt (CreditCount (snd r))) = Inr (AverageCredit (snd r)) \<and>
            \<bar>dec_val (AverageCredit (snd r)) - dec_val (TotalCredits (snd r)) / rat_of_int (CreditCount (snd r))\<bar>
              \<le> 5 / 10 ^ 17) \<and>
         (CreditCount (snd r) = 0 \<longrightarrow> AverageCredit (snd r) = zeroValue) \<and>
         (0 < DebitCount (snd r) \<longrightarrow>
            Div (TotalDebits (snd r)) (NewFromInt (DebitCount (snd r))) = Inr (AverageDebit (snd r)) \<and>
            \<bar>dec_val (AverageDebit (snd r)) - dec_val (TotalDebits (snd r)) / rat_of_int (DebitCount (snd r))\<bar>
              \<le> 5 / 10 ^ 17) \<and>
         (DebitCount (snd r) = 0 \<longrightarrow> AverageDebit (snd r) = zeroValue)"
    if "r \<in> set (MonthlySummaries s)" for r
  proof -
    from summary_entries [OF s that] obtain g where
      g: "g \<noteq> []" "set g \<subseteq> set txs" and c: "calculateMonthlySummary cy (fst r) g = Inr (snd r)"
      by blast
    from g(2) lo have "\<forall>t\<in>set g. - 2147483648 \<le> dexp (Amount t)"
      by blast
    from monthly_guarded [OF c g(1) this] show ?thesis .
  qed
  have report: "\<exists>tc td cc dc avgD avgC.
           foldl overall (Zero, Zero, 0, 0) r2 = (tc, td, cc, dc) \<and>
           (0 < dc \<longrightarrow> Div td (NewFromInt dc) = Inr avgD \<and>
              \<bar>dec_val avgD - dec_val td / rat_of_int dc\<bar> \<le> 5 / 10 ^ 17) \<and>
           (0 < cc \<longrightarrow> Div tc (NewFromInt cc) = Inr avgC \<and>
              \<bar>dec_val avgC - dec_val tc / rat_of_int cc\<bar> \<le> 5 / 10 ^ 17) \<and>
           FormatSummaryForEmail r1 r2 s =
             Inr (foldl monthLine
                    (''Total balance is '' @ StringFixed (TotalBalance s) 2 @ ''\<newline>'') r1
                  @ (if 0 < dc then ''Average debit amount: '' @ StringFixed avgD 2 @ ''\<newline>''
                     else [])
                  @ (if 0 < cc then ''Average credit amount: '' @ StringFixed avgC 2 else []))"
    if "mset r1 = mset (MonthlySummaries s) \<and> mset r2 = mset (MonthlySummaries s)" for r1 r2
  proof -
    from that have "set r2 = set (MonthlySummaries s)"
      by (blast dest: mset_eq_setD)
    with entry have e2: "\<forall>e\<in>set r2. - 2147483648 \<le> dexp (TotalCredits (snd e)) \<and>
        - 2147483648 \<le> dexp (TotalDebits (snd e))"
      by blast
    obtain tc td cc dc where f: "foldl overall (Zero, Zero, 0, 0) r2 = (tc, td, cc, dc)"
      by (cases "foldl overall (Zero, Zero, 0, 0) r2")
    from overall_exp_upper [OF f] have up: "dexp tc \<le> 1" "dexp td \<le> 1"
      by (simp_all add: dec_val_Zero)
    from overall_exp_lower [OF f _ _ e2] have low: "- 2147483648 \<le> dexp tc" "- 2147483648 \<le> dexp td"
      by (simp_all add: dec_val_Zero)
    obtain avgD where d: "0 < dc \<longrightarrow> Div td (NewFromInt dc) = Inr avgD \<and>
              \<bar>dec_val avgD - dec_val td / rat_of_int dc\<bar> \<le> 5 / 10 ^ 17"
      using Div_accuracy [OF _ low(2) up(2), of dc] by (cases "0 < dc") auto
    obtain avgC where c: "0 < cc \<longrightarrow> Div tc (NewFromInt cc) = Inr avgC \<and>
              \<bar>dec_val avgC - dec_val tc / rat_of_int cc\<bar> \<le> 5 / 10 ^ 17"
      using Div_accuracy [OF _ low(1) up(1), of cc] by (cases "0 < cc") auto
    from d c have "FormatSummaryForEmail r1 r2 s =
             Inr (foldl monthLine
                    (''Total balance is '' @ StringFixed (TotalBalance s) 2 @ ''\<newline>'') r1
                  @ (if 0 < dc then ''Average debit amount: '' @ StringFixed avgD 2 @ ''\<newline>''
                     else [])
                  @ (if 0 < cc then ''Average credit amount: '' @ StringFixed avgC 2 else []))"
      by (intro FormatSummaryForEmail_text [OF f]) blast+
    with f d c show ?thesis
      by blast
  qed
  from s entry report show ?thesis
    by blast
qed

text \<open>The theorem on the transactions of the example and on the empty collection.\<close>

theorem summary_and_report_never_fail_witness:
  "int32 (dexp \<lparr>dvalue = 605, dexp = - 1\<rparr>) \<and>
   (\<exists>s. CalculateSummary 2023 ''test-account'' (exampleTransactions 2023 ''test-account'') = Inr s \<and>
        (\<exists>text. FormatSummaryForEmail (MonthlySummaries s) (MonthlySummaries s) s = Inr text)) \<and>
   (\<exists>s. CalculateSummary 2023 ''test-account'' [] = Inr s \<and>
        (\<exists>text. FormatSummaryForEmail (MonthlySummaries s) (MonthlySummaries s) s = Inr text))"
proof -
  have e: "\<forall>t\<in>set ([]::Transaction list). int32 (dexp (Amount t))"
    by simp
  from summary_and_report_never_fail [OF example_exponents, of 2023 "''test-account''" 2023]
  have 1: "\<exists>s. CalculateSummary 2023 ''test-account'' (exampleTransactions 2023 ''test-account'') = Inr s \<and>
        (\<exists>text. FormatSummaryForEmail (MonthlySummaries s) (MonthlySummaries s) s = Inr text)"
    by blast
  from summary_and_report_never_fail [OF e, of 2023 "''test-account''"]
  have 2: "\<exists>s. CalculateSummary 2023 ''test-account'' [] = Inr s \<and>
        (\<exists>text. FormatSummaryForEmail (MonthlySummaries s) (MonthlySummaries s) s = Inr text)"
    by blast
  from 1 2 show ?thesis
    by (simp add: int32_def)
qed

text \<open>
  Claim C3. For the four rows of the example, in any current year, for any account and
  whatever the table of lower-case letters: the rows are ingested, the aggregator returns a summary whose total balance is 39.74 and
  whose monthly groups are July and August and no other; July has 2 transactions, average
  credit 60.50 and average debit -10.30; August has 2 transactions, average credit 10.00 and
  average debit -20.46; and whatever order the two loops of the formatter visit the groups
  in, the report has the lines \<open>Total balance is 39.74\<close>,
  \<open>Average debit amount: -15.38\<close> and \<open>Average credit amount: 35.25\<close>.
\<close>

theorem example_summary_and_report:
  "\<exists>txs s.
     ReadTransactions lowerCase cy exampleRows acc = Inr txs \<and>
     CalculateSummary now acc txs = Inr s \<and>
     dec_val (TotalBalance s) = 3974 / 100 \<and>
     map fst (MonthlySummaries s) = [''July'', ''August''] \<and>
     (\<exists>j a. map_of (MonthlySummaries s) ''July'' = Some j \<and>
            map_of (MonthlySummaries s) ''August'' = Some a \<and>
            TransactionCount j = 2 \<and> dec_val (AverageCredit j) = 605 / 10 \<and>
            dec_val (AverageDebit j) = - 103 / 10 \<and>
            TransactionCount a = 2 \<and> dec_val (AverageCredit a) = 10 \<and>
            dec_val (AverageDebit a) = - 2046 / 100) \<and>
     (\<forall>r1 r2. mset r1 = mset (MonthlySummaries s) \<and> mset r2 = mset (MonthlySummaries s) \<longrightarrow>
        (\<exists>text. FormatSummaryForEmail r1 r2 s = Inr text \<and>
           ''Total balance is 39.74'' \<in> set (linesOf text) \<and>
           ''Average debit amount: -15.38'' \<in> set (linesOf text) \<and>
           ''Average credit amount: 35.25'' \<in> set (linesOf text)))"
proof -
  let ?s = "\<lparr>SummaryAccountID = acc, TotalBalance = \<lparr>dvalue = 3974, dexp = - 2\<rparr>,
          MonthlySummaries = [(''July'', exampleJuly cy), (''August'', exampleAugust cy)],
          TotalTransactions = 4\<rparr>"
  have read: "ReadTransactions lowerCase cy exampleRows acc = Inr (exampleTransactions cy acc)"
    by (simp add: example_transactions exampleTransactions_def)
  have calc: "CalculateSummary now acc (exampleTransactions cy acc) = Inr ?s"
    by (rule example_summary)
  have report: "\<exists>text. FormatSummaryForEmail r1 r2 ?s = Inr text \<and>
           ''Total balance is 39.74'' \<in> set (linesOf text) \<and>
           ''Average debit amount: -15.38'' \<in> set (linesOf text) \<and>
           ''Average credit amount: 35.25'' \<in> set (linesOf text)"
    if "mset r1 = mset (MonthlySummaries ?s) \<and> mset r2 = mset (MonthlySummaries ?s)" for r1 r2
  proof -
    from that have a: "mset r1 = mset [(''July'', exampleJuly cy), (''August'', exampleAugust cy)]"
      and b: "mset r2 = mset [(''July'', exampleJuly cy), (''August'', exampleAugust cy)]"
      by simp_all
    note r = mset_pair [OF a] mset_pair [OF b]
    have "TotalBalance ?s = \<lparr>dvalue = 3974, dexp = - 2\<rparr>"
      by simp
    from example_report [OF this r] show ?thesis
      by (simp add: example_lines)
  qed
  show ?thesis
    apply (rule exI [of _ "exampleTransactions cy acc"])
    apply (rule exI [of _ ?s])
    apply (intro conjI)
         apply (rule read)
        apply (rule calc)
       apply (simp add: example_values)
      apply simp
     apply (simp add: example_values)
    apply (intro allI impI)
    apply (erule report)
    done
qed

text \<open>
  The theorem in 2023, with a table that leaves every letter beyond ASCII as it is and the
  second loop visiting the groups in the reverse order.
\<close>

theorem example_summary_and_report_witness:
  "\<exists>txs s.
     ReadTransactions (\<lambda>r. r) 2023 exampleRows ''test-account'' = Inr txs \<and>
     CalculateSummary 2023 ''test-account'' txs = Inr s \<and>
     mset (rev (MonthlySummaries s)) = mset (MonthlySummaries s) \<and>
     (\<exists>text. FormatSummaryForEmail (MonthlySummaries s) (rev (MonthlySummaries s)) s = Inr text \<and>
         ''Total balance is 39.74'' \<in> set (linesOf text) \<and>
         ''Average debit amount: -15.38'' \<in> set (linesOf text) \<and>
         ''Average credit amount: 35.25'' \<in> set (linesOf text))"
proof -
  from example_summary_and_report [of "\<lambda>r. r" 2023 "''test-account''" 2023] obtain txs s where
    r: "ReadTransactions (\<lambda>r. r) 2023 exampleRows ''test-account'' = Inr txs" and
    c: "CalculateSummary 2023 ''test-account'' txs = Inr s" and
    f: "\<forall>r1 r2. mset r1 = mset (MonthlySummaries s) \<and> mset r2 = mset (MonthlySummaries s) \<longrightarrow>
        (\<exists>text. FormatSummaryForEmail r1 r2 s = Inr text \<and>
           ''Total balance is 39.74'' \<in> set (linesOf text) \<and>
           ''Average debit amount: -15.38'' \<in> set (linesOf text) \<and>
           ''Average credit amount: 35.25'' \<in> set (linesOf text))"
    by blast
  have m: "mset (rev (MonthlySummaries s)) = mset (MonthlySummaries s)"
    by simp
  from f m have "\<exists>text. FormatSummaryForEmail (MonthlySummaries s) (rev (MonthlySummaries s)) s = Inr text \<and>
         ''Total balance is 39.74'' \<in> set (linesOf text) \<and>
         ''Average debit amount: -15.38'' \<in> set (linesOf text) \<and>
         ''Average credit amount: 35.25'' \<in> set (linesOf text)"
    by blast
  with r c m show ?thesis
    by blast
qed

section \<open>The header test and the line number, evaluated\<close>

text \<open>
  Claim C2, at the row (123, date, 5). The row has three fields and its first field parses
  as the integer 123. The classifier reports a header all the same, whatever the table
  of lower-case letters: the keyword test on the second field returns before the integer
  test is reached, and the integer test returns false on both of its branches (lines 246
  to 250), so that it never changes the result (\<open>isHeaderRow_keywords\<close>). As the first
  row of a file the row is skipped without an error, and the ingestion returns the
  transaction of the second row alone.
\<close>

theorem integer_first_field_taken_for_header:
  "Atoi (TrimSpace ([''123'', ''date'', ''5''] ! 0)) = Some 123 \<and>
   isHeaderRow lowerCase [''123'', ''date'', ''5''] \<and>
   ReadTransactions lowerCase cy
     [Fields [''123'', ''date'', ''5''], Fields [''1'', ''7/15'', ''+60.5'']] acc =
     Inr [transactionOf acc cy 7 15 605 (- 1) Credit ''1'']"
proof -
  have "Atoi (TrimSpace ([''123'', ''date'', ''5''] ! 0)) = Some 123"
    by code_simp
  moreover have h: "isHeaderRow lowerCase [''123'', ''date'', ''5'']"
    by code_simp
  moreover have "ReadTransactions lowerCase cy
     [Fields [''123'', ''date'', ''5''], Fields [''1'', ''7/15'', ''+60.5'']] acc =
     Inr [transactionOf acc cy 7 15 605 (- 1) Credit ''1'']"
    by (simp add: ReadTransactions_def readLoop_Fields readLoop_Nil h example_not_header
        parseTransaction_def trims example_dates example_amounts transactionOf_def)
  ultimately show ?thesis
    by simp
qed

text \<open>
  Claim C6, at a file with empty lines. The file has the record (1, 7/15, +60.5) on line
  1, three empty lines, and a row of two fields on line 5: the rows read are that record
  and the error of the CSV reader for line 5. The ingestion aborts on the second row and
  returns no transactions, and the error carries the cause; but the line number it carries
  is 2, the number of the row among the rows read, while its cause, the error of the CSV
  reader, names line 5. So it is with a row on line 5 that has three fields and an amount
  that does not parse. (For every file the first row that fails aborts the ingestion with
  its number among the rows read and the cause, \<open>first_failing_row_aborts\<close>, and
  nothing but the header is skipped, \<open>no_row_skipped\<close>; the number is the line of the
  file as long as no empty line comes before the row.)
\<close>

theorem line_number_counts_rows_read:
  "csvReadAll 0
     [Fields [''1'', ''7/15'', ''+60.5''], EmptyLine, EmptyLine, EmptyLine,
      Fields [''2'', ''7/28'']] = [Inr [''1'', ''7/15'', ''+60.5''], Inl (CsvFieldCount 5)] \<and>
   ReadTransactions lowerCase cy
     [Fields [''1'', ''7/15'', ''+60.5''], EmptyLine, EmptyLine, EmptyLine,
      Fields [''2'', ''7/28'']] acc = Inl (CsvReadFailed 2 (CsvFieldCount 5)) \<and>
   ReadTransactions lowerCase cy
     [Fields [''1'', ''7/15'', ''+60.5''], EmptyLine, EmptyLine, EmptyLine,
      Fields [''2'', ''7/28'', ''abc'']] acc =
     Inl (RecordParseFailed 2 (InvalidAmountFormat ''abc'' (InvalidAmount ''abc'')))"
proof -
  have "csvReadAll 0
     [Fields [''1'', ''7/15'', ''+60.5''], EmptyLine, EmptyLine, EmptyLine,
      Fields [''2'', ''7/28'']] = [Inr [''1'', ''7/15'', ''+60.5''], Inl (CsvFieldCount 5)]"
    by code_simp
  moreover have "TrimSpace ''abc'' = ''abc''" "parseAmount ''abc'' = Inl (InvalidAmount ''abc'')"
    by code_simp+
  ultimately show ?thesis
    by (simp add: ReadTransactions_def readLoop_Fields readLoop_Nil readLoop_EmptyLine
        example_not_header parseTransaction_def trims example_dates example_amounts Let_def)
qed

end
